theory Spec2Isabelle
  imports Main
begin

section \<open>Python strings\<close>

text \<open>
  A Python \<open>str\<close> is a sequence of Unicode code points; it is modelled as a list of
  natural numbers, one per code point. \<open>ascii\<close> turns an ASCII literal into such a list.
  The code points that matter below: 10 line feed, 39 apostrophe, 40 and 41 the
  parentheses, 44 comma, 59 semicolon.
\<close>

type_synonym ustr = "nat list"

definition ascii :: "string \<Rightarrow> ustr" where
  "ascii s = map of_char s"

text \<open>\<open>str.isspace\<close> on one code point; the same class is \<open>\s\<close> of \<open>re\<close> on \<open>str\<close>
  patterns and what \<open>str.strip()\<close> and \<open>str.split()\<close> remove.\<close>

definition isspace :: "nat \<Rightarrow> bool" where
  "isspace c \<longleftrightarrow>
     (9 \<le> c \<and> c \<le> 13) \<or> (28 \<le> c \<and> c \<le> 32) \<or> c = 133 \<or> c = 160 \<or> c = 5760 \<or>
     (8192 \<le> c \<and> c \<le> 8202) \<or> c = 8232 \<or> c = 8233 \<or> c = 8239 \<or> c = 8287 \<or> c = 12288"

text \<open>\<open>\d\<close> of \<open>re\<close> on \<open>str\<close> patterns: the decimal digits of Unicode (category Nd,
  Unicode 14). They come in runs of ten; the list holds the zero of each run.\<close>

definition digit_zeros :: "nat list" where
  "digit_zeros =
    [48, 1632, 1776, 1984, 2406, 2534, 2662, 2790, 2918, 3046, 3174, 3302, 3430, 3558,
     3664, 3792, 3872, 4160, 4240, 6112, 6160, 6470, 6608, 6784, 6800, 6992, 7088, 7232,
     7248, 42528, 43216, 43264, 43472, 43504, 43600, 44016, 65296, 66720, 68912, 69734,
     69872, 69942, 70096, 70384, 70736, 70864, 71248, 71360, 71472, 71904, 72016, 72784,
     73040, 73120, 92768, 92864, 93008, 120782, 120792, 120802, 120812, 120822, 123200,
     123632, 125264, 130032]"

definition isdecimal :: "nat \<Rightarrow> bool" where
  "isdecimal c \<longleftrightarrow> list_ex (\<lambda>z. z \<le> c \<and> c < z + 10) digit_zeros"

text \<open>\<open>s.strip()\<close> and \<open>s.strip(chars)\<close>.\<close>

definition strip :: "ustr \<Rightarrow> ustr" where
  "strip s = rev (dropWhile isspace (rev (dropWhile isspace s)))"

definition strip_chars :: "ustr \<Rightarrow> ustr \<Rightarrow> ustr" where
  "strip_chars chars s =
     rev (dropWhile (\<lambda>c. c \<in> set chars) (rev (dropWhile (\<lambda>c. c \<in> set chars) s)))"

text \<open>\<open>s.startswith(p)\<close>, \<open>s.endswith(p)\<close> and the substring test \<open>sub in s\<close>.\<close>

definition startswith :: "ustr \<Rightarrow> ustr \<Rightarrow> bool" where
  "startswith p s \<longleftrightarrow> take (length p) s = p"

definition endswith :: "ustr \<Rightarrow> ustr \<Rightarrow> bool" where
  "endswith p s \<longleftrightarrow> length p \<le> length s \<and> drop (length s - length p) s = p"

fun contains :: "ustr \<Rightarrow> ustr \<Rightarrow> bool" where
  "contains sub [] = (sub = [])"
| "contains sub (c # cs) = (startswith sub (c # cs) \<or> contains sub cs)"

text \<open>\<open>s.split(sep)\<close> for a separator of one code point (\<open>split_on sep [] s\<close>; its
  second argument is the piece being read), and \<open>s.split()\<close>, which cuts at runs of
  white space and returns no empty piece.\<close>

fun split_on :: "nat \<Rightarrow> ustr \<Rightarrow> ustr \<Rightarrow> ustr list" where
  "split_on sep cur [] = [cur]"
| "split_on sep cur (c # cs) =
     (if c = sep then cur # split_on sep [] cs else split_on sep (cur @ [c]) cs)"

fun split_words :: "ustr \<Rightarrow> ustr \<Rightarrow> ustr list" where
  "split_words cur [] = (if cur = [] then [] else [cur])"
| "split_words cur (c # cs) =
     (if isspace c then (if cur = [] then split_words [] cs else cur # split_words [] cs)
      else split_words (cur @ [c]) cs)"

definition split :: "ustr \<Rightarrow> ustr list" where
  "split s = split_words [] s"

section \<open>The dump parser (utils/data_loader.py)\<close>

text \<open>A voter is a Python dict from column names to \<open>str\<close> or \<open>None\<close>: a map whose
  values are options. \<open>voter k = None\<close> is a missing key, \<open>voter k = Some None\<close> is
  a key holding \<open>None\<close>.\<close>

type_synonym voter = "string \<rightharpoonup> ustr option"

definition columns :: "string list" where
  "columns =
    [''id'', ''serial_bn'', ''serial'', ''name'', ''name_normalized'',
     ''voter_id_bn'', ''voter_id'', ''father_name'', ''father_name_normalized'',
     ''mother_name'', ''occupation'', ''date_of_birth'', ''address'',
     ''voter_area_no_bn'', ''voter_area_no'', ''union'', ''ward_bn'', ''ward'',
     ''gender'', ''created_at'', ''updated_at'', ''phonetic_name'', ''phonetic_father_name'']"

subsection \<open>parse_record_values\<close>

text \<open>The loop over the characters of a record, on the state
  \<open>(values, current, in_quotes)\<close>.\<close>

fun scan_values :: "ustr \<Rightarrow> ustr list \<times> ustr \<times> bool \<Rightarrow> ustr list \<times> ustr \<times> bool" where
  "scan_values [] st = st"
| "scan_values (char # rest) (values, current, in_quotes) =
     (if char = 39 \<and> \<not> in_quotes then scan_values rest (values, current @ [char], True)
      else if char = 39 \<and> in_quotes then scan_values rest (values, current @ [char], False)
      else if char = 44 \<and> \<not> in_quotes then scan_values rest (values @ [strip current], [], in_quotes)
      else scan_values rest (values, current @ [char], in_quotes))"

text \<open>The cleaning of one value: \<open>v[1:-1]\<close> is \<open>butlast (tl v)\<close>, also on the
  one-character string.\<close>

definition clean_value :: "ustr \<Rightarrow> ustr option" where
  "clean_value v0 =
     (let v = strip v0
      in if startswith [39] v \<and> endswith [39] v then Some (butlast (tl v))
         else if v = ascii ''NULL'' then None
         else Some v)"

definition parse_record_values :: "ustr \<Rightarrow> ustr option list" where
  "parse_record_values record =
     (case scan_values record ([], [], False) of
        (values, current, in_quotes) \<Rightarrow>
          map clean_value (if current \<noteq> [] then values @ [strip current] else values))"

subsection \<open>parse_sql_alternative\<close>

text \<open>The loop over the lines, on the state \<open>(in_values, current_values)\<close>.\<close>

fun collect_values :: "ustr list \<Rightarrow> bool \<times> ustr \<Rightarrow> bool \<times> ustr" where
  "collect_values [] st = st"
| "collect_values (line # lines) (in_values, current_values) =
     (if contains (ascii ''INSERT INTO'') line \<and> contains (ascii ''voters'') line
      then collect_values lines (True, current_values)
      else if in_values then collect_values lines (in_values, current_values @ line)
      else collect_values lines (in_values, current_values))"

text \<open>\<open>re.split(r'\),\s*\n?\(', s)\<close>. The separator is a closing parenthesis, a
  comma, white space and an opening parenthesis; \<open>\s*\<close> already takes every line
  feed, so \<open>\n?\<close> never decides a match. \<open>match_row_sep\<close> matches the separator at
  the head of the text and returns what follows it.\<close>

definition match_row_sep :: "ustr \<Rightarrow> ustr option" where
  "match_row_sep s =
     (case s of
        a # b # r \<Rightarrow>
          if a = 41 \<and> b = 44
          then (case dropWhile isspace r of c # r' \<Rightarrow> if c = 40 then Some r' else None | [] \<Rightarrow> None)
          else None
      | _ \<Rightarrow> None)"

lemma match_row_sep_shorter: "match_row_sep s = Some r \<Longrightarrow> length r < length s"
proof -
  assume m: "match_row_sep s = Some r"
  then obtain a b t where s: "s = a # b # t" and d: "dropWhile isspace t = 40 # r"
    by (auto simp: match_row_sep_def split: list.splits if_splits)
  have "length (dropWhile isspace t) \<le> length t" by (rule length_dropWhile_le)
  with s d show ?thesis by simp
qed

function re_split :: "ustr \<Rightarrow> ustr \<Rightarrow> ustr list" where
  "re_split cur [] = [cur]"
| "re_split cur (c # cs) =
     (case match_row_sep (c # cs) of
        Some rest \<Rightarrow> cur # re_split [] rest
      | None \<Rightarrow> re_split (cur @ [c]) cs)"
  by pat_completeness auto
termination
  by (relation "measure (\<lambda>(cur, s). length s)") (auto dest: match_row_sep_shorter)

text \<open>The clean-up of one record: strip, then drop a leading parenthesis, a trailing
  \<open>);\<close> and a trailing parenthesis.\<close>

definition trim_record :: "ustr \<Rightarrow> ustr" where
  "trim_record record0 =
     (let r1 = strip record0;
          r2 = (if startswith [40] r1 then tl r1 else r1);
          r3 = (if endswith [41, 59] r2 then take (length r2 - 2) r2 else r2)
      in if endswith [41] r3 then butlast r3 else r3)"

text \<open>The dict built from the values of one record.\<close>

definition voter_of_values :: "ustr option list \<Rightarrow> string list \<Rightarrow> voter" where
  "voter_of_values values cols =
     fold (\<lambda>(i, col) voter.
             (case (if i < length values then values ! i else None) of
                None \<Rightarrow> voter(col \<mapsto> None)
              | Some v \<Rightarrow> if v = ascii ''NULL'' then voter(col \<mapsto> None)
                          else voter(col \<mapsto> Some (strip_chars [39] v))))
          (enumerate 0 cols) Map.empty"

text \<open>The body of the loop over the records: \<open>None\<close> where the loop emits nothing
  (the \<open>continue\<close> on an empty record, and the guard on the number of values).\<close>

definition parse_chunk :: "ustr \<Rightarrow> string list \<Rightarrow> voter option" where
  "parse_chunk record0 cols =
     (let record = trim_record record0
      in if record = [] then None
         else (let values = parse_record_values record
               in if length values \<ge> length cols then Some (voter_of_values values cols)
                  else None))"

text \<open>The list \<open>records\<close> that \<open>parse_sql_alternative\<close> computes from the text, and
  the function itself.\<close>

definition records :: "ustr \<Rightarrow> ustr list" where
  "records content =
     (case collect_values (split_on 10 [] content) (False, []) of
        (in_values, current_values) \<Rightarrow> re_split [] current_values)"

definition parse_sql_alternative :: "ustr \<Rightarrow> string list \<Rightarrow> voter list" where
  "parse_sql_alternative content cols =
     List.map_filter (\<lambda>record. parse_chunk record cols) (records content)"

subsection \<open>The row pattern of parse_sql_dump\<close>

text \<open>
  \<open>insert_pattern\<close> is \<open>\((\d+)\<close>, then twenty-two times \<open>,\s*\<close> and a field, then
  \<open>\)\<close>. A field is either \<open>'([^']*)'\<close>, whose group is the text between the
  apostrophes, or \<open>(NULL|'[^']*')\<close>, whose group keeps the apostrophes. Every
  repetition of the pattern is followed by a character outside its class (a comma after
  the digits, an apostrophe or an N after the white space, an apostrophe after
  \<open>[^']*\<close>), and the two alternatives start with different characters, so a match
  from a given position never depends on backtracking: the matcher below reads the text
  once, left to right, and returns the groups and the text after the match.
\<close>

datatype field_pat = Quoted | NullOrQuoted

definition insert_pattern :: "field_pat list" where
  "insert_pattern =
    [Quoted, Quoted, Quoted, Quoted, NullOrQuoted, NullOrQuoted, Quoted, Quoted, Quoted,
     NullOrQuoted, Quoted, Quoted, Quoted, Quoted, Quoted, Quoted, Quoted, Quoted, Quoted,
     Quoted, Quoted, Quoted]"

definition match_quoted :: "ustr \<Rightarrow> (ustr \<times> ustr) option" where
  "match_quoted s =
     (case s of
        [] \<Rightarrow> None
      | c # r \<Rightarrow>
          if c = 39
          then (case dropWhile (\<lambda>x. x \<noteq> 39) r of
                  [] \<Rightarrow> None
                | q # rest \<Rightarrow> Some (takeWhile (\<lambda>x. x \<noteq> 39) r, rest))
          else None)"

fun match_field :: "field_pat \<Rightarrow> ustr \<Rightarrow> (ustr \<times> ustr) option" where
  "match_field Quoted s = match_quoted s"
| "match_field NullOrQuoted s =
     (if startswith (ascii ''NULL'') s then Some (ascii ''NULL'', drop 4 s)
      else (case match_quoted s of
              None \<Rightarrow> None
            | Some (body, rest) \<Rightarrow> Some ([39] @ body @ [39], rest)))"

fun match_fields :: "field_pat list \<Rightarrow> ustr \<Rightarrow> (ustr list \<times> ustr) option" where
  "match_fields [] s = Some ([], s)"
| "match_fields (p # ps) s =
     (case s of
        [] \<Rightarrow> None
      | c # r \<Rightarrow>
          if c = 44
          then (case match_field p (dropWhile isspace r) of
                  None \<Rightarrow> None
                | Some (g, rest) \<Rightarrow>
                    (case match_fields ps rest of
                       None \<Rightarrow> None
                     | Some (gs, rest') \<Rightarrow> Some (g # gs, rest')))
          else None)"

definition match_row :: "ustr \<Rightarrow> (ustr list \<times> ustr) option" where
  "match_row s =
     (case s of
        [] \<Rightarrow> None
      | c # r \<Rightarrow>
          if c = 40 \<and> takeWhile isdecimal r \<noteq> []
          then (case match_fields insert_pattern (dropWhile isdecimal r) of
                  None \<Rightarrow> None
                | Some (gs, rest) \<Rightarrow>
                    (case rest of
                       [] \<Rightarrow> None
                     | d # rest' \<Rightarrow>
                         if d = 41 then Some (takeWhile isdecimal r # gs, rest') else None))
          else None)"

lemma match_quoted_shorter: "match_quoted s = Some (g, r) \<Longrightarrow> length r < length s"
proof -
  assume "match_quoted s = Some (g, r)"
  then obtain t q where s: "s = 39 # t" and d: "dropWhile (\<lambda>x. x \<noteq> 39) t = q # r"
    by (auto simp: match_quoted_def split: list.splits if_splits)
  have "length (dropWhile (\<lambda>x. x \<noteq> 39) t) \<le> length t" by (rule length_dropWhile_le)
  with s d show ?thesis by simp
qed

lemma match_field_shorter: "match_field p s = Some (g, r) \<Longrightarrow> length r < length s"
proof (cases p)
  case Quoted
  assume "match_field p s = Some (g, r)"
  with Quoted show ?thesis by (simp add: match_quoted_shorter)
next
  case NullOrQuoted
  assume m: "match_field p s = Some (g, r)"
  show ?thesis
  proof (cases "startswith (ascii ''NULL'') s")
    case True
    have l4: "length (ascii ''NULL'') = 4" by (simp add: ascii_def)
    from True have "take (length (ascii ''NULL'')) s = ascii ''NULL''"
      unfolding startswith_def .
    then have "length (take (length (ascii ''NULL'')) s) = length (ascii ''NULL'')"
      by (rule arg_cong)
    with l4 have "4 \<le> length s" by simp
    moreover from m NullOrQuoted True have "r = drop 4 s" by simp
    ultimately show ?thesis by simp
  next
    case False
    with m NullOrQuoted obtain body where "match_quoted s = Some (body, r)"
      by (auto split: option.splits)
    then show ?thesis by (rule match_quoted_shorter)
  qed
qed

lemma match_fields_shorter: "match_fields ps s = Some (gs, r) \<Longrightarrow> length r \<le> length s"
proof (induction ps arbitrary: s gs r)
  case Nil
  then show ?case by simp
next
  case (Cons p ps)
  from Cons.prems obtain t g r1 gs1 where s: "s = 44 # t"
    and f: "match_field p (dropWhile isspace t) = Some (g, r1)"
    and fs: "match_fields ps r1 = Some (gs1, r)"
    by (auto split: list.splits if_splits option.splits)
  have "length r1 < length (dropWhile isspace t)" using f by (rule match_field_shorter)
  moreover have "length (dropWhile isspace t) \<le> length t" by (rule length_dropWhile_le)
  moreover have "length r \<le> length r1" using fs by (rule Cons.IH)
  ultimately show ?case using s by simp
qed

lemma match_row_shorter: "match_row s = Some (gs, r) \<Longrightarrow> length r < length s"
proof -
  assume "match_row s = Some (gs, r)"
  then obtain t gs1 where s: "s = 40 # t"
    and fs: "match_fields insert_pattern (dropWhile isdecimal t) = Some (gs1, 41 # r)"
    by (auto simp: match_row_def split: list.splits if_splits option.splits)
  have "length (41 # r) \<le> length (dropWhile isdecimal t)" using fs by (rule match_fields_shorter)
  moreover have "length (dropWhile isdecimal t) \<le> length t" by (rule length_dropWhile_le)
  ultimately show ?thesis using s by simp
qed

text \<open>\<open>re.findall\<close>: the matches from left to right, none overlapping another; after
  a failed attempt the search moves on by one character.\<close>

function findall :: "ustr \<Rightarrow> ustr list list" where
  "findall [] = []"
| "findall (c # cs) =
     (case match_row (c # cs) of
        Some (groups, rest) \<Rightarrow> groups # findall rest
      | None \<Rightarrow> findall cs)"
  by pat_completeness auto
termination
  by (relation "measure length") (auto dest: match_row_shorter)

subsection \<open>parse_sql_dump\<close>

text \<open>The value stored for one group of a match.\<close>

definition clean_match_value :: "ustr \<Rightarrow> ustr option" where
  "clean_match_value v =
     (if v = ascii ''NULL'' then None
      else if startswith [39] v \<and> endswith [39] v then Some (butlast (tl v))
      else Some v)"

definition voter_of_match :: "ustr list \<Rightarrow> voter" where
  "voter_of_match match =
     fold (\<lambda>(i, col) voter.
             if i < length match then voter(col \<mapsto> clean_match_value (match ! i))
             else voter(col \<mapsto> None))
          (enumerate 0 columns) Map.empty"

text \<open>\<open>parse_sql_text\<close> is \<open>parse_sql_dump\<close> after the file is read.\<close>

definition parse_sql_text :: "ustr \<Rightarrow> voter list" where
  "parse_sql_text content =
     (let voters = map voter_of_match (findall content)
      in if length voters = 0 then parse_sql_alternative content columns else voters)"

text \<open>Reading the file is the only step of \<open>parse_sql_dump\<close> that can raise. The
  files are a map from paths to their decoded text.\<close>

datatype load_error = FileNotFoundError

definition parse_sql_dump :: "(string \<rightharpoonup> ustr) \<Rightarrow> string \<Rightarrow> load_error + voter list" where
  "parse_sql_dump files file_path =
     (case files file_path of
        None \<Rightarrow> Inl FileNotFoundError
      | Some content \<Rightarrow> Inr (parse_sql_text content))"

subsection \<open>create_voter_documents\<close>

text \<open>The labels of the lines of a document's text, as code points; the Bengali part
  of each is followed by its English gloss, which the comment shows.\<close>

definition name_label :: ustr where
  \<comment> \<open>\<open>... (Name): \<close>\<close>
  "name_label = [2472, 2494, 2478] @ ascii '' (Name): ''"

definition phonetic_name_label :: ustr where
  "phonetic_name_label = ascii ''Phonetic Name: ''"

definition father_name_label :: ustr where
  \<comment> \<open>\<open>... (Father's Name): \<close>\<close>
  "father_name_label =
     [2474, 2495, 2468, 2494, 2480, 32, 2472, 2494, 2478] @ ascii '' (Father's Name): ''"

definition phonetic_father_label :: ustr where
  "phonetic_father_label = ascii ''Phonetic Father: ''"

definition mother_name_label :: ustr where
  \<comment> \<open>\<open>... (Mother's Name): \<close>\<close>
  "mother_name_label =
     [2478, 2494, 2468, 2494, 2480, 32, 2472, 2494, 2478] @ ascii '' (Mother's Name): ''"

definition occupation_label :: ustr where
  \<comment> \<open>\<open>... (Occupation): \<close>\<close>
  "occupation_label = [2474, 2503, 2486, 2494] @ ascii '' (Occupation): ''"

definition date_of_birth_label :: ustr where
  \<comment> \<open>\<open>... (Date of Birth): \<close>\<close>
  "date_of_birth_label =
     [2460, 2472, 2509, 2478, 32, 2468, 2494, 2480, 2495, 2454] @ ascii '' (Date of Birth): ''"

definition address_label :: ustr where
  \<comment> \<open>\<open>... (Address): \<close>\<close>
  "address_label = [2464, 2495, 2453, 2494, 2472, 2494] @ ascii '' (Address): ''"

definition ward_label :: ustr where
  \<comment> \<open>\<open>... (Ward No): \<close>\<close>
  "ward_label =
     [2451, 2479, 2492, 2494, 2480, 2509, 2465, 32, 2472, 2434] @ ascii '' (Ward No): ''"

definition ward_bn_label :: ustr where
  \<comment> \<open>Bengali throughout, but for the parentheses, the colon and the spaces\<close>
  "ward_bn_label =
     [2451, 2479, 2492, 2494, 2480, 2509, 2465, 32, 40, 2476, 2494, 2434, 2482, 2494, 41, 58, 32]"

definition union_label :: ustr where
  \<comment> \<open>\<open>... (Union): \<close>\<close>
  "union_label = [2439, 2441, 2472, 2495, 2479, 2492, 2472] @ ascii '' (Union): ''"

definition gender_label :: ustr where
  \<comment> \<open>\<open>... (Gender): \<close>\<close>
  "gender_label = [2482, 2495, 2457, 2509, 2455] @ ascii '' (Gender): ''"

definition serial_label :: ustr where
  \<comment> \<open>\<open>... (Serial): \<close>\<close>
  "serial_label =
     [2453, 2509, 2480, 2478, 2495, 2453, 32, 2472, 2434] @ ascii '' (Serial): ''"

text \<open>\<open>if voter.get(k): text_parts.append(label + voter[k])\<close>: the lines that one such
  statement appends. \<open>None\<close> and the empty string are false.\<close>

definition field_line :: "voter \<Rightarrow> ustr \<Rightarrow> string \<Rightarrow> ustr list" where
  "field_line voter label k =
     (case voter k of
        Some (Some v) \<Rightarrow> if v \<noteq> [] then [label @ v] else []
      | _ \<Rightarrow> [])"

definition text_parts :: "voter \<Rightarrow> ustr list" where
  "text_parts voter =
     field_line voter name_label ''name'' @
     field_line voter phonetic_name_label ''phonetic_name'' @
     field_line voter father_name_label ''father_name'' @
     field_line voter phonetic_father_label ''phonetic_father_name'' @
     field_line voter mother_name_label ''mother_name'' @
     field_line voter occupation_label ''occupation'' @
     field_line voter date_of_birth_label ''date_of_birth'' @
     field_line voter address_label ''address'' @
     field_line voter ward_label ''ward'' @
     field_line voter ward_bn_label ''ward_bn'' @
     field_line voter union_label ''union'' @
     field_line voter gender_label ''gender'' @
     field_line voter serial_label ''serial''"

text \<open>\<open>sep.join(parts)\<close>.\<close>

fun join :: "ustr \<Rightarrow> ustr list \<Rightarrow> ustr" where
  "join sep [] = []"
| "join sep [x] = x"
| "join sep (x # y # ys) = x @ sep @ join sep (y # ys)"

text \<open>\<open>voter.get(k, '')\<close> gives the empty string for a missing key only; a key that
  holds \<open>None\<close> gives \<open>None\<close>. \<open>str\<close> of \<open>None\<close> is the text \<open>None\<close>.\<close>

definition get_or_empty :: "voter \<Rightarrow> string \<Rightarrow> ustr option" where
  "get_or_empty voter k = (case voter k of None \<Rightarrow> Some [] | Some v \<Rightarrow> v)"

definition str :: "ustr option \<Rightarrow> ustr" where
  "str v = (case v of None \<Rightarrow> ascii ''None'' | Some s \<Rightarrow> s)"

record document =
  doc_id :: ustr
  content :: ustr
  metadata :: "string \<rightharpoonup> ustr option"

definition create_voter_document :: "voter \<Rightarrow> document" where
  "create_voter_document voter =
     \<lparr> doc_id = str (get_or_empty voter ''id''),
       content = join [10] (text_parts voter),
       metadata =
         [''id'' \<mapsto> Some (str (get_or_empty voter ''id'')),
          ''name'' \<mapsto> get_or_empty voter ''name'',
          ''father_name'' \<mapsto> get_or_empty voter ''father_name'',
          ''mother_name'' \<mapsto> get_or_empty voter ''mother_name'',
          ''occupation'' \<mapsto> get_or_empty voter ''occupation'',
          ''ward'' \<mapsto> get_or_empty voter ''ward'',
          ''union'' \<mapsto> get_or_empty voter ''union'',
          ''gender'' \<mapsto> get_or_empty voter ''gender'',
          ''date_of_birth'' \<mapsto> get_or_empty voter ''date_of_birth'',
          ''address'' \<mapsto> get_or_empty voter ''address'',
          ''serial'' \<mapsto> get_or_empty voter ''serial''] \<rparr>"

definition create_voter_documents :: "voter list \<Rightarrow> document list" where
  "create_voter_documents voters = map create_voter_document voters"

section \<open>The conversation manager (rag/chain.py)\<close>

text \<open>A turn of the history is a dict with the keys \<open>question\<close> and \<open>answer\<close>.\<close>

record turn =
  question :: ustr
  answer :: ustr

definition follow_up_indicators :: "ustr list" where
  "follow_up_indicators =
    [[2468, 2494, 2480], [2468, 2494, 2470, 2503, 2480], [2468, 2495, 2472, 2495],
     [2488, 2503, 2439], [2448],
     ascii ''his'', ascii ''her'', ascii ''their'', ascii ''they'', ascii ''that'',
     ascii ''those'',
     [2453, 2468, 2460, 2472], [2453, 2507, 2469, 2494, 2479, 2492], [2453, 2454, 2472]]"

text \<open>\<open>str.lower\<close> follows the case tables of Unicode, which are not part of this
  program; \<open>_is_follow_up\<close> takes it as the parameter \<open>lower\<close>. \<open>lower_ascii\<close>
  is \<open>str.lower\<close> on texts of ASCII letters and of letters without case.\<close>

definition lower_ascii :: "ustr \<Rightarrow> ustr" where
  "lower_ascii s = map (\<lambda>c. if 65 \<le> c \<and> c \<le> 90 then c + 32 else c) s"

definition is_follow_up :: "(ustr \<Rightarrow> ustr) \<Rightarrow> ustr \<Rightarrow> bool" where
  "is_follow_up lower q =
     (let question_lower = lower q
      in list_ex (\<lambda>indicator. contains indicator question_lower) follow_up_indicators
         \<and> length (split q) < 5)"

definition add_to_history :: "turn list \<Rightarrow> ustr \<Rightarrow> ustr \<Rightarrow> turn list" where
  "add_to_history history q a = history @ [\<lparr> question = q, answer = a \<rparr>]"

text \<open>The first half of \<open>chat\<close>: the text that is sent to the chain.\<close>

definition context_enhanced_question :: "(ustr \<Rightarrow> ustr) \<Rightarrow> turn list \<Rightarrow> ustr \<Rightarrow> ustr" where
  "context_enhanced_question lower history q =
     (if history \<noteq> [] \<and> length history > 0
      then (let last_q = question (last history)
            in if is_follow_up lower q
               then ascii ''Previous question: '' @ last_q @ [10] @
                    ascii ''Current question: '' @ q
               else q)
      else q)"

text \<open>\<open>VoterRAGChain.query\<close> calls the chain of the library, \<open>qa_chain.invoke\<close>, and
  repacks its result. The library call is the parameter \<open>invoke\<close>: it returns the
  answer and the source documents, or raises.\<close>

record 'd response =
  res_answer :: ustr
  source_documents :: "'d list"

definition query :: "(ustr \<Rightarrow> 'e + ustr \<times> 'd list) \<Rightarrow> ustr \<Rightarrow> 'e + 'd response" where
  "query invoke q =
     (case invoke q of
        Inl e \<Rightarrow> Inl e
      | Inr (result, docs) \<Rightarrow> Inr \<lparr> res_answer = result, source_documents = docs \<rparr>)"

text \<open>\<open>chat\<close> returns the result, or the exception of the chain, and the history
  after the call.\<close>

definition chat ::
  "(ustr \<Rightarrow> ustr) \<Rightarrow> (ustr \<Rightarrow> 'e + ustr \<times> 'd list) \<Rightarrow> turn list \<Rightarrow> ustr \<Rightarrow>
     ('e + 'd response) \<times> turn list" where
  "chat lower invoke history q =
     (case query invoke (context_enhanced_question lower history q) of
        Inl e \<Rightarrow> (Inl e, history)
      | Inr result \<Rightarrow> (Inr result, add_to_history history q (res_answer result)))"

section \<open>Notions used in the statements\<close>

text \<open>What \<open>parse_sql_dump\<close> stores under the \<open>i\<close>-th column for a match, and what
  \<open>parse_sql_alternative\<close> stores under it for the values of a record.\<close>

definition stored_match :: "ustr list \<Rightarrow> nat \<Rightarrow> ustr option" where
  "stored_match match i = (if i < length match then clean_match_value (match ! i) else None)"

definition stored_value :: "ustr option list \<Rightarrow> nat \<Rightarrow> ustr option" where
  "stored_value values i =
     (case (if i < length values then values ! i else None) of
        None \<Rightarrow> None
      | Some v \<Rightarrow> if v = ascii ''NULL'' then None else Some (strip_chars [39] v))"

text \<open>A value token of a record: every apostrophe that opens a quoted part is closed,
  and no comma stands outside the quoted parts. \<open>balanced\<close> reads the token with the
  flag \<open>in_quotes\<close> of \<open>parse_record_values\<close>.\<close>

fun balanced :: "bool \<Rightarrow> ustr \<Rightarrow> bool" where
  "balanced in_quotes [] = (\<not> in_quotes)"
| "balanced in_quotes (c # cs) =
     (if c = 39 then balanced (\<not> in_quotes) cs
      else if c = 44 \<and> \<not> in_quotes then False
      else balanced in_quotes cs)"

definition value_token :: "ustr \<Rightarrow> bool" where
  "value_token t = balanced False t"

text \<open>The rows that \<open>insert_pattern\<close> is written for: an opening parenthesis, the
  digits of the id, then for each further column a comma, white space and a value, which
  is \<open>NULL\<close> or a text between apostrophes that holds no apostrophe, then a closing
  parenthesis. \<open>NULL\<close> is accepted in the three columns whose pattern allows it.
  \<open>group_of\<close> is the group that the pattern captures for a value, \<open>stored_field\<close>
  what \<open>parse_sql_dump\<close> stores for it.\<close>

datatype sql_value = Null | Str ustr

fun render_value :: "sql_value \<Rightarrow> ustr" where
  "render_value Null = ascii ''NULL''"
| "render_value (Str s) = [39] @ s @ [39]"

fun render_fields :: "(ustr \<times> sql_value) list \<Rightarrow> ustr" where
  "render_fields [] = []"
| "render_fields ((ws, v) # fs) = [44] @ ws @ render_value v @ render_fields fs"

definition render_row :: "ustr \<Rightarrow> (ustr \<times> sql_value) list \<Rightarrow> ustr" where
  "render_row digits flds = [40] @ digits @ render_fields flds @ [41]"

fun field_ok :: "field_pat \<Rightarrow> ustr \<times> sql_value \<Rightarrow> bool" where
  "field_ok p (ws, Null) = (list_all isspace ws \<and> p = NullOrQuoted)"
| "field_ok p (ws, Str s) = (list_all isspace ws \<and> 39 \<notin> set s)"

definition well_formed_row :: "ustr \<Rightarrow> (ustr \<times> sql_value) list \<Rightarrow> bool" where
  "well_formed_row digits flds \<longleftrightarrow>
     digits \<noteq> [] \<and> list_all isdecimal digits \<and> list_all2 field_ok insert_pattern flds"

fun group_of :: "field_pat \<Rightarrow> sql_value \<Rightarrow> ustr" where
  "group_of Quoted (Str s) = s"
| "group_of p v = render_value v"

fun stored_field :: "field_pat \<Rightarrow> sql_value \<Rightarrow> ustr option" where
  "stored_field p Null = None"
| "stored_field Quoted (Str s) = (if s = ascii ''NULL'' then None else Some s)"
| "stored_field NullOrQuoted (Str s) = Some s"

section \<open>Properties of the dump parser\<close>

subsection \<open>The dicts built for a match and for the values of a record\<close>

lemma fold_update_other:
  "k \<notin> set cols \<Longrightarrow> fold (\<lambda>(i, col) m. m(col \<mapsto> h i)) (enumerate n cols) m0 k = m0 k"
  by (induction cols arbitrary: n m0) auto

lemma fold_update_dom:
  "dom (fold (\<lambda>(i, col) m. m(col \<mapsto> h i)) (enumerate n cols) m0) = dom m0 \<union> set cols"
  by (induction cols arbitrary: n m0) auto

lemma fold_update_nth:
  "distinct cols \<Longrightarrow> j < length cols \<Longrightarrow>
   fold (\<lambda>(i, col) m. m(col \<mapsto> h i)) (enumerate n cols) m0 (cols ! j) = Some (h (n + j))"
proof (induction cols arbitrary: n m0 j)
  case Nil
  then show ?case by simp
next
  case (Cons c cs)
  show ?case
  proof (cases j)
    case 0
    from Cons.prems have "c \<notin> set cs" by simp
    then have "fold (\<lambda>(i, col) m. m(col \<mapsto> h i)) (enumerate (Suc n) cs) (m0(c \<mapsto> h n)) c
        = (m0(c \<mapsto> h n)) c"
      by (rule fold_update_other)
    with 0 show ?thesis by (simp del: fun_upd_apply) simp
  next
    case (Suc j')
    with Cons.prems Cons.IH [of j' "Suc n" "m0(c \<mapsto> h n)"] show ?thesis by simp
  qed
qed

lemma voter_of_match_fold:
  "voter_of_match match =
     fold (\<lambda>(i, col) voter. voter(col \<mapsto> stored_match match i)) (enumerate 0 columns) Map.empty"
  unfolding voter_of_match_def
  by (rule fold_cong) (auto simp: stored_match_def)

lemma columns_distinct: "distinct columns"
  by (simp add: columns_def)

lemma columns_length: "length columns = 23"
  by (simp add: columns_def)

lemma voter_of_match_dom: "dom (voter_of_match match) = set columns"
  by (simp add: voter_of_match_fold fold_update_dom)

lemma voter_of_match_nth:
  "i < 23 \<Longrightarrow> voter_of_match match (columns ! i) = Some (stored_match match i)"
  using fold_update_nth [OF columns_distinct, of i "stored_match match" 0 Map.empty]
  by (simp add: voter_of_match_fold columns_length)

lemma voter_of_values_fold:
  "voter_of_values values cols =
     fold (\<lambda>(i, col) voter. voter(col \<mapsto> stored_value values i)) (enumerate 0 cols) Map.empty"
  unfolding voter_of_values_def
  by (rule fold_cong) (auto simp: stored_value_def split: option.splits)

lemma voter_of_values_dom: "dom (voter_of_values values cols) = set cols"
  by (simp add: voter_of_values_fold fold_update_dom)

lemma voter_of_values_nth:
  "i < 23 \<Longrightarrow> voter_of_values values columns (columns ! i) = Some (stored_value values i)"
  using fold_update_nth [OF columns_distinct, of i "stored_value values" 0 Map.empty]
  by (simp add: voter_of_values_fold columns_length)

lemma voter_of_values_take:
  assumes "length cols \<le> length values"
  shows "voter_of_values values cols = voter_of_values (take (length cols) values) cols"
proof -
  have "fold (\<lambda>(i, col) voter. voter(col \<mapsto> stored_value values i)) (enumerate 0 cols) Map.empty
      = fold (\<lambda>(i, col) voter. voter(col \<mapsto> stored_value (take (length cols) values) i))
          (enumerate 0 cols) Map.empty"
  proof (rule fold_cong)
    fix x assume "x \<in> set (enumerate 0 cols)"
    then have "fst x < length cols" by (auto simp: in_set_enumerate_eq)
    with assms have "stored_value (take (length cols) values) (fst x) = stored_value values (fst x)"
      by (simp add: stored_value_def)
    then show "(case x of (i, col) \<Rightarrow> \<lambda>voter. voter(col \<mapsto> stored_value values i))
             = (case x of (i, col) \<Rightarrow> \<lambda>voter. voter(col \<mapsto> stored_value (take (length cols) values) i))"
      by (cases x) simp
  qed simp_all
  then show ?thesis by (simp add: voter_of_values_fold)
qed

subsection \<open>Records made of value tokens\<close>

lemma scan_values_token:
  "balanced q t \<Longrightarrow> scan_values (t @ rest) (vs, cur, q) = scan_values rest (vs, cur @ t, False)"
proof (induction t arbitrary: cur q)
  case Nil
  then show ?case by simp
next
  case (Cons c cs)
  then show ?case by (cases q) (auto split: if_splits)
qed

lemma scan_values_join:
  "\<forall>t \<in> set toks. value_token t \<Longrightarrow> toks \<noteq> [] \<Longrightarrow>
   scan_values (join [44] toks) (vs, [], False) = (vs @ map strip (butlast toks), last toks, False)"
proof (induction toks arbitrary: vs)
  case Nil
  then show ?case by simp
next
  case (Cons t ts)
  from Cons.prems have bt: "balanced False t" by (simp add: value_token_def)
  show ?case
  proof (cases ts)
    case Nil
    with scan_values_token [OF bt, of "[]" vs "[]"] show ?thesis by simp
  next
    case (Cons u us)
    have "scan_values (join [44] (t # ts)) (vs, [], False)
        = scan_values (t @ (44 # join [44] ts)) (vs, [], False)"
      using Cons by simp
    also have "\<dots> = scan_values (44 # join [44] ts) (vs, t, False)"
      using scan_values_token [OF bt, of "44 # join [44] ts" vs "[]"] by simp
    also have "\<dots> = scan_values (join [44] ts) (vs @ [strip t], [], False)" by simp
    also have "\<dots> = ((vs @ [strip t]) @ map strip (butlast ts), last ts, False)"
      using Cons.IH [of "vs @ [strip t]"] Cons.prems Cons by simp
    finally show ?thesis using Cons by simp
  qed
qed

lemma strip_idem: "strip (strip s) = strip s"
proof -
  define u where "u = dropWhile isspace s"
  define w where "w = dropWhile isspace (rev u)"
  have s: "strip s = rev w" by (simp add: strip_def u_def w_def)
  have "dropWhile isspace (rev w) = rev w"
  proof (cases "w = []")
    case True
    then show ?thesis by simp
  next
    case False
    then have "rev u \<noteq> []" by (auto simp: w_def)
    then have un: "u \<noteq> []" by simp
    have "last w = last (rev u)" using False unfolding w_def
      by (metis append_take_drop_id last_appendR takeWhile_dropWhile_id)
    also have "\<dots> = hd u" using un by (simp add: last_rev)
    finally have "last w = hd u" .
    moreover have "\<not> isspace (hd u)" using un unfolding u_def by (rule hd_dropWhile)
    ultimately have "\<not> isspace (hd (rev w))" using False by (simp add: hd_rev)
    then show ?thesis using False by (cases "rev w") auto
  qed
  moreover have "dropWhile isspace w = w" by (simp add: w_def)
  ultimately show ?thesis by (simp add: s) (simp add: strip_def)
qed

lemma clean_value_strip: "clean_value (strip t) = clean_value t"
  by (simp add: clean_value_def strip_idem)

lemma parse_record_values_join:
  assumes "\<forall>t \<in> set toks. value_token t" and "toks \<noteq> []" and "last toks \<noteq> []"
  shows "parse_record_values (join [44] toks) = map clean_value toks"
proof -
  have "parse_record_values (join [44] toks)
      = map clean_value (map strip (butlast toks) @ [strip (last toks)])"
    using assms by (simp add: parse_record_values_def scan_values_join)
  also have "\<dots> = map clean_value (map strip (butlast toks @ [last toks]))" by simp
  also have "\<dots> = map clean_value toks"
    using assms(2) by (simp add: clean_value_strip)
  finally show ?thesis .
qed

subsection \<open>Well-formed rows and the row pattern\<close>

lemma not_space_quote [simp]: "\<not> isspace 39" and not_space_N [simp]: "\<not> isspace 78"
  by (simp_all add: isspace_def)

lemma not_decimal_comma [simp]: "\<not> isdecimal 44"
  and not_decimal_quote [simp]: "\<not> isdecimal 39"
  and not_decimal_N [simp]: "\<not> isdecimal 78"
  by (simp_all add: isdecimal_def digit_zeros_def)

lemma dropWhile_to_quote:
  "39 \<notin> set s \<Longrightarrow> dropWhile (\<lambda>x. x \<noteq> 39) (s @ 39 # rest) = 39 # rest"
  by (induction s) auto

lemma takeWhile_to_quote:
  "39 \<notin> set s \<Longrightarrow> takeWhile (\<lambda>x. x \<noteq> 39) (s @ 39 # rest) = s"
  by (induction s) auto

lemma match_quoted_render:
  "39 \<notin> set s \<Longrightarrow> match_quoted ([39] @ s @ [39] @ rest) = Some (s, rest)"
  by (simp add: match_quoted_def dropWhile_to_quote takeWhile_to_quote)

lemma dropWhile_all: "list_all P ws \<Longrightarrow> dropWhile P (ws @ t) = dropWhile P t"
  by (induction ws) auto

lemma takeWhile_all: "list_all P ws \<Longrightarrow> takeWhile P (ws @ t) = ws @ takeWhile P t"
  by (induction ws) auto

lemma render_value_space: "dropWhile isspace (render_value v @ rest) = render_value v @ rest"
  by (cases v) (simp_all add: ascii_def)

lemma match_field_render:
  "field_ok p (ws, v) \<Longrightarrow> match_field p (render_value v @ rest) = Some (group_of p v, rest)"
proof (cases v)
  case Null
  assume "field_ok p (ws, v)"
  with Null have "p = NullOrQuoted" by simp
  with Null show ?thesis by (simp add: startswith_def ascii_def)
next
  case (Str s)
  assume "field_ok p (ws, v)"
  with Str have q: "39 \<notin> set s" by simp
  have m: "match_quoted (render_value v @ rest) = Some (s, rest)"
    using match_quoted_render [OF q, of rest] Str by simp
  show ?thesis
  proof (cases p)
    case Quoted
    with m Str show ?thesis by simp
  next
    case NullOrQuoted
    have "\<not> startswith (ascii ''NULL'') (render_value v @ rest)"
      using Str by (simp add: startswith_def ascii_def)
    with m NullOrQuoted Str show ?thesis by simp
  qed
qed

lemma match_fields_render:
  "list_all2 field_ok ps flds \<Longrightarrow>
   match_fields ps (render_fields flds @ rest) = Some (map2 group_of ps (map snd flds), rest)"
proof (induction ps flds rule: list_all2_induct)
  case Nil
  then show ?case by simp
next
  case (Cons p ps f fs)
  obtain ws v where f: "f = (ws, v)" by (cases f)
  with Cons.hyps have ok: "field_ok p (ws, v)" by simp
  then have ws: "list_all isspace ws" by (cases v) simp_all
  have "dropWhile isspace (ws @ render_value v @ render_fields fs @ rest)
      = render_value v @ render_fields fs @ rest"
    using ws by (simp add: dropWhile_all render_value_space)
  moreover have "match_field p (render_value v @ render_fields fs @ rest)
      = Some (group_of p v, render_fields fs @ rest)"
    using ok by (rule match_field_render)
  ultimately show ?case using Cons.IH f by simp
qed

lemma insert_pattern_length: "length insert_pattern = 22"
  by (simp add: insert_pattern_def)

lemma match_row_render:
  assumes "well_formed_row digits flds"
  shows "match_row (render_row digits flds @ rest)
           = Some (digits # map2 group_of insert_pattern (map snd flds), rest)"
proof -
  from assms have d: "digits \<noteq> []" "list_all isdecimal digits"
    and fs: "list_all2 field_ok insert_pattern flds"
    by (simp_all add: well_formed_row_def)
  from fs have "length flds = 22" by (simp add: list_all2_lengthD [symmetric] insert_pattern_length)
  then obtain f fs' where flds: "flds = f # fs'" by (cases flds) auto
  obtain ws v where f: "f = (ws, v)" by (cases f)
  define tail where "tail = render_fields flds @ [41] @ rest"
  have hd: "tail = 44 # (ws @ render_value v @ render_fields fs' @ [41] @ rest)"
    by (simp add: tail_def flds f)
  have tw: "takeWhile isdecimal (digits @ tail) = digits"
    using d(2) by (simp add: takeWhile_all hd)
  have dw: "dropWhile isdecimal (digits @ tail) = tail"
    using d(2) by (simp add: dropWhile_all hd)
  have mf: "match_fields insert_pattern tail
      = Some (map2 group_of insert_pattern (map snd flds), [41] @ rest)"
    unfolding tail_def using fs by (rule match_fields_render)
  have "render_row digits flds @ rest = 40 # (digits @ tail)"
    by (simp add: render_row_def tail_def)
  then show ?thesis using tw dw mf d(1) by (simp add: match_row_def)
qed

lemma findall_render:
  assumes "well_formed_row digits flds"
  shows "findall (render_row digits flds)
           = [digits # map2 group_of insert_pattern (map snd flds)]"
proof -
  have r: "render_row digits flds = 40 # (digits @ render_fields flds @ [41])"
    by (simp add: render_row_def)
  from match_row_render [OF assms, of "[]"]
  have "match_row (40 # (digits @ render_fields flds @ [41]))
      = Some (digits # map2 group_of insert_pattern (map snd flds), [])"
    by (simp add: r)
  then show ?thesis by (simp add: r)
qed

lemma clean_match_value_group:
  "field_ok p (ws, v) \<Longrightarrow> clean_match_value (group_of p v) = stored_field p v"
proof (cases v)
  case Null
  assume "field_ok p (ws, v)"
  with Null show ?thesis by (simp add: clean_match_value_def)
next
  case (Str s)
  assume "field_ok p (ws, v)"
  with Str have q: "39 \<notin> set s" by simp
  show ?thesis
  proof (cases p)
    case Quoted
    have "\<not> startswith [39] s" using q by (cases s) (auto simp: startswith_def)
    with Quoted Str show ?thesis by (simp add: clean_match_value_def)
  next
    case NullOrQuoted
    have "[39] @ s @ [39] \<noteq> ascii ''NULL''" by (simp add: ascii_def)
    moreover have "startswith [39] ([39] @ s @ [39])" by (simp add: startswith_def)
    moreover have "endswith [39] ([39] @ s @ [39])" by (simp add: endswith_def)
    moreover have "butlast (tl ([39] @ s @ [39])) = s" by (simp add: butlast_append)
    ultimately show ?thesis using NullOrQuoted Str
      by (simp add: clean_match_value_def del: append.simps)
  qed
qed

lemma clean_match_value_digits:
  assumes "digits \<noteq> []" and "list_all isdecimal digits"
  shows "clean_match_value digits = Some digits"
proof -
  obtain d ds where ds: "digits = d # ds" using assms(1) by (cases digits) auto
  with assms(2) have "isdecimal d" by simp
  then have "d \<noteq> 78" "d \<noteq> 39" by auto
  then have "digits \<noteq> ascii ''NULL''" "\<not> startswith [39] digits"
    by (simp_all add: ds ascii_def startswith_def)
  then show ?thesis by (simp add: clean_match_value_def)
qed

subsection \<open>The fallback strategy\<close>

lemma parse_chunk_cases:
  "parse_chunk record columns =
     (if trim_record record \<noteq> [] \<and> 23 \<le> length (parse_record_values (trim_record record))
      then Some (voter_of_values (take 23 (parse_record_values (trim_record record))) columns)
      else None)"
  using voter_of_values_take [of columns "parse_record_values (trim_record record)"]
  by (simp add: parse_chunk_def Let_def columns_length)

lemma parse_sql_alternative_dom:
  assumes "voter \<in> set (parse_sql_alternative dump columns)"
  shows "dom voter = set columns"
proof -
  from assms obtain r where "parse_chunk r columns = Some voter"
    by (auto simp: parse_sql_alternative_def List.map_filter_def)
  then have "voter = voter_of_values (take 23 (parse_record_values (trim_record r))) columns"
    by (simp add: parse_chunk_cases split: if_splits)
  then show ?thesis by (simp add: voter_of_values_dom)
qed

text \<open>
  Claim C5, as amended. In the fallback strategy a record with fewer values than the 23
  columns is dropped: no voter is emitted for it and nothing is padded. A record with at
  least 23 values is emitted from its first 23 values, the others being discarded.
\<close>

theorem fallback_row_length_guard:
  "parse_sql_alternative dump columns =
     map (\<lambda>record. voter_of_values (take 23 (parse_record_values (trim_record record))) columns)
       (filter (\<lambda>record. trim_record record \<noteq> []
                  \<and> 23 \<le> length (parse_record_values (trim_record record)))
          (records dump))"
proof -
  have "map (the \<circ> (\<lambda>record. parse_chunk record columns))
          (filter (\<lambda>record. parse_chunk record columns \<noteq> None) rs)
      = map (\<lambda>record. voter_of_values (take 23 (parse_record_values (trim_record record))) columns)
          (filter (\<lambda>record. trim_record record \<noteq> []
                     \<and> 23 \<le> length (parse_record_values (trim_record record))) rs)" for rs
    by (induction rs) (simp_all add: parse_chunk_cases)
  then show ?thesis by (simp add: parse_sql_alternative_def List.map_filter_def)
qed

lemma findall_no_open: "40 \<notin> set s \<Longrightarrow> findall s = []"
  by (induction s) (auto simp: match_row_def)

lemma findall_skip: "40 \<notin> set pre \<Longrightarrow> findall (pre @ s) = findall s"
  by (induction pre) (auto simp: match_row_def)

lemma findall_failed_open: "match_row (40 # s) = None \<Longrightarrow> 40 \<notin> set s \<Longrightarrow> findall (40 # s) = []"
  by (simp add: findall_no_open)

text \<open>A dump whose only row has three values.\<close>

lemma short_dump_lines:
  "split_on 10 [] (ascii ''INSERT INTO voters VALUES'' @ 10 # ascii ''(1, 'a', NULL);'')
     = [ascii ''INSERT INTO voters VALUES'', ascii ''(1, 'a', NULL);'']"
  by (simp add: ascii_def)

lemma short_dump_collect:
  "collect_values [ascii ''INSERT INTO voters VALUES'', ascii ''(1, 'a', NULL);''] (False, [])
     = (True, ascii ''(1, 'a', NULL);'')"
  by (simp add: ascii_def startswith_def)

lemma short_dump_split: "re_split [] (ascii ''(1, 'a', NULL);'') = [ascii ''(1, 'a', NULL);'']"
  by (simp add: ascii_def match_row_sep_def)

lemma short_dump_records:
  "records (ascii ''INSERT INTO voters VALUES'' @ 10 # ascii ''(1, 'a', NULL);'')
     = [ascii ''(1, 'a', NULL);'']"
  by (simp only: records_def short_dump_lines short_dump_collect short_dump_split prod.case)

lemma short_dump_trim: "trim_record (ascii ''(1, 'a', NULL);'') = ascii ''1, 'a', NULL''"
  by (simp add: ascii_def trim_record_def strip_def isspace_def startswith_def endswith_def)

lemma short_dump_values:
  "parse_record_values (ascii ''1, 'a', NULL'') = [Some (ascii ''1''), Some (ascii ''a''), None]"
  by (simp add: ascii_def parse_record_values_def clean_value_def strip_def isspace_def
      startswith_def endswith_def)

theorem fallback_row_length_guard_counterexample:
  "length (parse_record_values (trim_record (ascii ''(1, 'a', NULL);''))) = 3
   \<and> parse_sql_alternative
        (ascii ''INSERT INTO voters VALUES'' @ 10 # ascii ''(1, 'a', NULL);'') columns = []"
  by (simp add: parse_sql_alternative_def short_dump_records List.map_filter_def
      parse_chunk_cases short_dump_trim short_dump_values)

theorem fallback_row_length_guard_witness:
  "records (ascii ''INSERT INTO voters VALUES'' @ 10 # ascii ''(1, 'a', NULL);'')
     = [ascii ''(1, 'a', NULL);'']
   \<and> trim_record (ascii ''(1, 'a', NULL);'') \<noteq> []
   \<and> length (parse_record_values (trim_record (ascii ''(1, 'a', NULL);''))) < 23
   \<and> parse_sql_alternative
        (ascii ''INSERT INTO voters VALUES'' @ 10 # ascii ''(1, 'a', NULL);'') columns = []"
  using fallback_row_length_guard
    [of "ascii ''INSERT INTO voters VALUES'' @ 10 # ascii ''(1, 'a', NULL);''"]
  by (simp add: short_dump_records short_dump_trim short_dump_values) (simp add: ascii_def)

text \<open>
  Claim C6, as amended. When the pattern matches no row of the dump and the fallback
  strategy emits no voter either, \<open>parse_sql_dump\<close> returns the empty list to its
  caller, as an ordinary result: nothing is raised.
\<close>

theorem exhaustion_returns_empty_list:
  assumes "files file_path = Some dump"
      and "findall dump = []"
      and "parse_sql_alternative dump columns = []"
  shows "parse_sql_dump files file_path = Inr []"
  using assms by (simp add: parse_sql_dump_def parse_sql_text_def)

lemma no_rows_findall: "findall (ascii ''-- no rows'') = []"
  by (rule findall_no_open) (simp add: ascii_def)

lemma no_rows_alternative: "parse_sql_alternative (ascii ''-- no rows'') columns = []"
proof -
  have "records (ascii ''-- no rows'') = [[]]"
    by (simp add: records_def ascii_def startswith_def)
  then show ?thesis
    by (simp add: parse_sql_alternative_def List.map_filter_def parse_chunk_def trim_record_def
        strip_def startswith_def endswith_def)
qed

theorem exhaustion_returns_empty_list_counterexample:
  "findall (ascii ''-- no rows'') = []
   \<and> parse_sql_alternative (ascii ''-- no rows'') columns = []
   \<and> parse_sql_dump [''voters.sql'' \<mapsto> ascii ''-- no rows''] ''voters.sql'' = Inr []"
  by (simp add: no_rows_findall no_rows_alternative parse_sql_dump_def parse_sql_text_def)

theorem exhaustion_returns_empty_list_witness:
  "[''voters.sql'' \<mapsto> ascii ''-- no rows''] ''voters.sql'' = Some (ascii ''-- no rows'')
   \<and> findall (ascii ''-- no rows'') = []
   \<and> parse_sql_alternative (ascii ''-- no rows'') columns = []
   \<and> parse_sql_dump [''voters.sql'' \<mapsto> ascii ''-- no rows''] ''voters.sql'' = Inr []"
  using exhaustion_returns_empty_list
    [of "[''voters.sql'' \<mapsto> ascii ''-- no rows'']" "''voters.sql''" "ascii ''-- no rows''"]
    no_rows_findall no_rows_alternative
  by simp

lemma join_two_nonempty: "2 \<le> length toks \<Longrightarrow> join [44] toks \<noteq> []"
proof -
  assume "2 \<le> length toks"
  then obtain t u us where "toks = t # u # us"
    by (cases toks; cases "tl toks") auto
  then show ?thesis by simp
qed

lemma parse_chunk_join:
  assumes "trim_record record = join [44] toks"
      and "\<forall>t \<in> set toks. value_token t"
      and "23 \<le> length toks"
      and "last toks \<noteq> []"
  shows "parse_chunk record columns = Some (voter_of_values (map clean_value toks) columns)"
proof -
  from assms(3) have ne: "toks \<noteq> []" by auto
  have v: "parse_record_values (trim_record record) = map clean_value toks"
    using assms(1) parse_record_values_join [OF assms(2) ne assms(4)] by simp
  from assms(3) have "join [44] toks \<noteq> []" by (intro join_two_nonempty) simp
  with assms(1) have "trim_record record \<noteq> []" by simp
  then show ?thesis using v assms(3) by (simp add: parse_chunk_def columns_length)
qed

lemma stored_value_token:
  "i < length toks \<Longrightarrow>
   stored_value (map clean_value toks) i =
     (case clean_value (toks ! i) of
        None \<Rightarrow> None
      | Some v \<Rightarrow> if v = ascii ''NULL'' then None else Some (strip_chars [39] v))"
  by (simp add: stored_value_def)

lemma clean_value_quoted: "strip t = [39] @ m @ [39] \<Longrightarrow> clean_value t = Some m"
  by (simp add: clean_value_def startswith_def endswith_def butlast_append)


lemma strip_chars_unchanged:
  assumes "s \<noteq> []" and "hd s \<noteq> 39" and "last s \<noteq> 39"
  shows "strip_chars [39] s = s"
proof -
  from assms(1,2) have a: "dropWhile (\<lambda>c. c \<in> set [39]) s = s" by (cases s) auto
  from assms(1,3) have "dropWhile (\<lambda>c. c \<in> set [39]) (rev s) = rev s"
    by (cases "rev s") (auto simp: last_rev [symmetric] hd_rev)
  with a show ?thesis by (simp add: strip_chars_def)
qed


lemma doubled_quote_chunk:
  assumes "trim_record record = join [44] toks"
      and "\<forall>t \<in> set toks. value_token t"
      and "23 \<le> length toks"
      and "last toks \<noteq> []"
      and "i < 23"
      and "strip (toks ! i) = [39] @ a @ [39, 39] @ b @ [39]"
      and "a \<noteq> []" and "b \<noteq> []" and "39 \<notin> set a" and "39 \<notin> set b"
  shows "\<exists>voter. parse_chunk record columns = Some voter
           \<and> voter (columns ! i) = Some (Some (a @ [39, 39] @ b))"
proof -
  let ?v = "voter_of_values (map clean_value toks) columns"
  have p: "parse_chunk record columns = Some ?v"
    using assms(1-4) by (rule parse_chunk_join)
  from assms(3,5) have i: "i < length toks" by simp
  have c: "clean_value (toks ! i) = Some (a @ [39, 39] @ b)"
    using clean_value_quoted [of "toks ! i" "a @ [39, 39] @ b"] assms(6) by simp
  have "39 \<notin> set (ascii ''NULL'')" by (simp add: ascii_def)
  moreover have "39 \<in> set (a @ [39, 39] @ b)" by simp
  ultimately have n: "a @ [39, 39] @ b \<noteq> ascii ''NULL''" by metis
  have "hd (a @ [39, 39] @ b) \<noteq> 39" using assms(7,9) by (cases a) auto
  moreover have "last (a @ [39, 39] @ b) \<noteq> 39"
  proof -
    from assms(8) have "last b \<in> set b" by (rule last_in_set)
    with assms(10) have "last b \<noteq> 39" by metis
    with assms(8) show ?thesis by simp
  qed
  ultimately have s: "strip_chars [39] (a @ [39, 39] @ b) = a @ [39, 39] @ b"
    using assms(7) by (intro strip_chars_unchanged) auto
  have "?v (columns ! i) = Some (stored_value (map clean_value toks) i)"
    using assms(5) by (rule voter_of_values_nth)
  also have "\<dots> = Some (Some (a @ [39, 39] @ b))"
    using stored_value_token [OF i] c n s by simp
  finally show ?thesis using p by blast
qed

lemma map_filter_member:
  "x \<in> set xs \<Longrightarrow> f x = Some y \<Longrightarrow> y \<in> set (List.map_filter f xs)"
  by (force simp: List.map_filter_def)

lemma parse_sql_text_fallback:
  "findall dump = [] \<Longrightarrow> parse_sql_text dump = parse_sql_alternative dump columns"
  by (simp add: parse_sql_text_def)

text \<open>
  Claim C1, as amended. Take a dump in which the row pattern of the primary strategy
  matches nothing, so that \<open>parse_sql_dump\<close> returns what the fallback strategy reads,
  and one of its records, made of at least 23 value tokens. A token among the first 23
  that is a quoted string with a doubled apostrophe between two non-empty parts free of
  apostrophes gives, in the voter that \<open>parse_sql_dump\<close> returns for this record, one
  value, and that value keeps both apostrophes: it is the text before, two apostrophes,
  the text after. The doubled apostrophe is not turned into one.
\<close>

theorem doubled_quote_kept:
  assumes "findall dump = []"
      and "record \<in> set (records dump)"
      and "trim_record record = join [44] toks"
      and "\<forall>t \<in> set toks. value_token t"
      and "23 \<le> length toks"
      and "last toks \<noteq> []"
      and "i < 23"
      and "strip (toks ! i) = [39] @ a @ [39, 39] @ b @ [39]"
      and "a \<noteq> []" and "b \<noteq> []" and "39 \<notin> set a" and "39 \<notin> set b"
  shows "\<exists>voter. voter \<in> set (parse_sql_text dump)
           \<and> parse_chunk record columns = Some voter
           \<and> voter (columns ! i) = Some (Some (a @ [39, 39] @ b))"
proof -
  have "\<exists>voter. parse_chunk record columns = Some voter
           \<and> voter (columns ! i) = Some (Some (a @ [39, 39] @ b))"
    using assms(3-12) by (rule doubled_quote_chunk)
  then obtain voter where
    p: "parse_chunk record columns = Some voter"
    and v: "voter (columns ! i) = Some (Some (a @ [39, 39] @ b))"
    by blast
  from assms(2) p have "voter \<in> set (parse_sql_alternative dump columns)"
    unfolding parse_sql_alternative_def by (rule map_filter_member)
  with assms(1) have "voter \<in> set (parse_sql_text dump)"
    by (simp add: parse_sql_text_fallback)
  with p v show ?thesis by blast
qed

text \<open>A dump of one row whose name holds a doubled apostrophe.\<close>

lemma obrien_lines:
  "split_on 10 [] (ascii ''INSERT INTO voters VALUES'' @ 10 # ascii ''(1,'a','b','O'' @ 39 # 39 # ascii ''Brien','n',NULL,NULL,'f','g','m',NULL,'d','e','x','y','u','v','w','G','c','h','p','q');'')
     = [ascii ''INSERT INTO voters VALUES'',
        ascii ''(1,'a','b','O'' @ 39 # 39 # ascii ''Brien','n',NULL,NULL,'f','g','m',NULL,'d','e','x','y','u','v','w','G','c','h','p','q');'']"
  by (simp add: ascii_def)

lemma obrien_collect:
  "collect_values [ascii ''INSERT INTO voters VALUES'',
        ascii ''(1,'a','b','O'' @ 39 # 39 # ascii ''Brien','n',NULL,NULL,'f','g','m',NULL,'d','e','x','y','u','v','w','G','c','h','p','q');''] (False, [])
     = (True, ascii ''(1,'a','b','O'' @ 39 # 39 # ascii ''Brien','n',NULL,NULL,'f','g','m',NULL,'d','e','x','y','u','v','w','G','c','h','p','q');'')"
  by (simp add: ascii_def startswith_def)

lemma obrien_split:
  "re_split [] (ascii ''(1,'a','b','O'' @ 39 # 39 # ascii ''Brien','n',NULL,NULL,'f','g','m',NULL,'d','e','x','y','u','v','w','G','c','h','p','q');'')
     = [ascii ''(1,'a','b','O'' @ 39 # 39 # ascii ''Brien','n',NULL,NULL,'f','g','m',NULL,'d','e','x','y','u','v','w','G','c','h','p','q');'']"
  by (simp add: ascii_def match_row_sep_def)

lemma obrien_records:
  "records (ascii ''INSERT INTO voters VALUES'' @ 10 # ascii ''(1,'a','b','O'' @ 39 # 39 # ascii ''Brien','n',NULL,NULL,'f','g','m',NULL,'d','e','x','y','u','v','w','G','c','h','p','q');'')
     = [ascii ''(1,'a','b','O'' @ 39 # 39 # ascii ''Brien','n',NULL,NULL,'f','g','m',NULL,'d','e','x','y','u','v','w','G','c','h','p','q');'']"
  by (simp only: records_def obrien_lines obrien_collect obrien_split prod.case)

lemma obrien_trim:
  "trim_record (ascii ''(1,'a','b','O'' @ 39 # 39 # ascii ''Brien','n',NULL,NULL,'f','g','m',NULL,'d','e','x','y','u','v','w','G','c','h','p','q');'')
     = ascii ''1,'a','b','O'' @ 39 # 39 # ascii ''Brien','n',NULL,NULL,'f','g','m',NULL,'d','e','x','y','u','v','w','G','c','h','p','q'' @ [39]"
  by (simp add: ascii_def trim_record_def strip_def isspace_def startswith_def endswith_def)

lemma obrien_values:
  "length (parse_record_values (ascii ''1,'a','b','O'' @ 39 # 39 # ascii ''Brien','n',NULL,NULL,'f','g','m',NULL,'d','e','x','y','u','v','w','G','c','h','p','q'' @ [39])) = 23
   \<and> parse_record_values (ascii ''1,'a','b','O'' @ 39 # 39 # ascii ''Brien','n',NULL,NULL,'f','g','m',NULL,'d','e','x','y','u','v','w','G','c','h','p','q'' @ [39]) ! 3
       = Some (ascii ''O'' @ [39, 39] @ ascii ''Brien'')"
  by (simp add: ascii_def parse_record_values_def clean_value_def strip_def isspace_def
      startswith_def endswith_def)

lemma obrien_no_match:
  "findall (ascii ''INSERT INTO voters VALUES'' @ 10 # ascii ''(1,'a','b','O'' @ 39 # 39 # ascii ''Brien','n',NULL,NULL,'f','g','m',NULL,'d','e','x','y','u','v','w','G','c','h','p','q');'') = []"
proof -
  have "match_row (40 # ascii ''1,'a','b','O'' @ 39 # 39 # ascii ''Brien','n',NULL,NULL,'f','g','m',NULL,'d','e','x','y','u','v','w','G','c','h','p','q'' @ [39] @ ascii '');'') = None"
    by (simp add: ascii_def match_row_def match_quoted_def insert_pattern_def isdecimal_def
        digit_zeros_def isspace_def)
  moreover have "40 \<notin> set (ascii ''1,'a','b','O'' @ 39 # 39 # ascii ''Brien','n',NULL,NULL,'f','g','m',NULL,'d','e','x','y','u','v','w','G','c','h','p','q'' @ [39] @ ascii '');'')"
    by (simp add: ascii_def)
  ultimately have a: "findall (40 # ascii ''1,'a','b','O'' @ 39 # 39 # ascii ''Brien','n',NULL,NULL,'f','g','m',NULL,'d','e','x','y','u','v','w','G','c','h','p','q'' @ [39] @ ascii '');'') = []"
    by (rule findall_failed_open)
  have b: "40 \<notin> set (ascii ''INSERT INTO voters VALUES'' @ [10])" by (simp add: ascii_def)
  have c: "findall ((ascii ''INSERT INTO voters VALUES'' @ [10]) @ 40 # ascii ''1,'a','b','O'' @ 39 # 39 # ascii ''Brien','n',NULL,NULL,'f','g','m',NULL,'d','e','x','y','u','v','w','G','c','h','p','q'' @ [39] @ ascii '');'') = []"
    by (rule trans [OF findall_skip [OF b] a])
  have "(ascii ''INSERT INTO voters VALUES'' @ [10]) @ 40 # ascii ''1,'a','b','O'' @ 39 # 39 # ascii ''Brien','n',NULL,NULL,'f','g','m',NULL,'d','e','x','y','u','v','w','G','c','h','p','q'' @ [39] @ ascii '');''
      = ascii ''INSERT INTO voters VALUES'' @ 10 # ascii ''(1,'a','b','O'' @ 39 # 39 # ascii ''Brien','n',NULL,NULL,'f','g','m',NULL,'d','e','x','y','u','v','w','G','c','h','p','q');''"
    by (simp add: ascii_def)
  with c show ?thesis by (simp only:)
qed

lemma obrien_chunk:
  "parse_chunk (ascii ''(1,'a','b','O'' @ 39 # 39 # ascii ''Brien','n',NULL,NULL,'f','g','m',NULL,'d','e','x','y','u','v','w','G','c','h','p','q');'') columns
     = Some (voter_of_values (parse_record_values (ascii ''1,'a','b','O'' @ 39 # 39 # ascii ''Brien','n',NULL,NULL,'f','g','m',NULL,'d','e','x','y','u','v','w','G','c','h','p','q'' @ [39])) columns)"
proof -
  have "ascii ''1,'a','b','O'' @ 39 # 39 # ascii ''Brien','n',NULL,NULL,'f','g','m',NULL,'d','e','x','y','u','v','w','G','c','h','p','q'' @ [39] \<noteq> []" by simp
  then show ?thesis
    using obrien_values by (simp only: parse_chunk_def obrien_trim Let_def columns_length) simp
qed

lemma obrien_alternative:
  "parse_sql_alternative (ascii ''INSERT INTO voters VALUES'' @ 10 # ascii ''(1,'a','b','O'' @ 39 # 39 # ascii ''Brien','n',NULL,NULL,'f','g','m',NULL,'d','e','x','y','u','v','w','G','c','h','p','q');'') columns
     = [voter_of_values (parse_record_values (ascii ''1,'a','b','O'' @ 39 # 39 # ascii ''Brien','n',NULL,NULL,'f','g','m',NULL,'d','e','x','y','u','v','w','G','c','h','p','q'' @ [39])) columns]"
  by (simp add: parse_sql_alternative_def obrien_records List.map_filter_def obrien_chunk)

lemma obrien_name:
  "voter_of_values (parse_record_values (ascii ''1,'a','b','O'' @ 39 # 39 # ascii ''Brien','n',NULL,NULL,'f','g','m',NULL,'d','e','x','y','u','v','w','G','c','h','p','q'' @ [39])) columns ''name''
     = Some (Some (ascii ''O'' @ [39, 39] @ ascii ''Brien''))"
proof -
  have "columns ! 3 = ''name''" by (simp add: columns_def)
  moreover have "stored_value (parse_record_values (ascii ''1,'a','b','O'' @ 39 # 39 # ascii ''Brien','n',NULL,NULL,'f','g','m',NULL,'d','e','x','y','u','v','w','G','c','h','p','q'' @ [39])) 3
      = Some (ascii ''O'' @ [39, 39] @ ascii ''Brien'')"
    using obrien_values by (simp add: stored_value_def) (simp add: ascii_def strip_chars_def)
  ultimately show ?thesis
    using voter_of_values_nth [of 3 "parse_record_values (ascii ''1,'a','b','O'' @ 39 # 39 # ascii ''Brien','n',NULL,NULL,'f','g','m',NULL,'d','e','x','y','u','v','w','G','c','h','p','q'' @ [39])"]
    by simp
qed

theorem doubled_quote_kept_counterexample:
  "length (parse_sql_text (ascii ''INSERT INTO voters VALUES'' @ 10 # ascii ''(1,'a','b','O'' @ 39 # 39 # ascii ''Brien','n',NULL,NULL,'f','g','m',NULL,'d','e','x','y','u','v','w','G','c','h','p','q');'')) = 1
   \<and> (parse_sql_text (ascii ''INSERT INTO voters VALUES'' @ 10 # ascii ''(1,'a','b','O'' @ 39 # 39 # ascii ''Brien','n',NULL,NULL,'f','g','m',NULL,'d','e','x','y','u','v','w','G','c','h','p','q');'') ! 0) ''name''
       = Some (Some (ascii ''O'' @ [39, 39] @ ascii ''Brien''))
   \<and> ascii ''O'' @ [39, 39] @ ascii ''Brien'' \<noteq> ascii ''O'Brien''"
proof -
  have "parse_sql_text (ascii ''INSERT INTO voters VALUES'' @ 10 # ascii ''(1,'a','b','O'' @ 39 # 39 # ascii ''Brien','n',NULL,NULL,'f','g','m',NULL,'d','e','x','y','u','v','w','G','c','h','p','q');'')
      = [voter_of_values (parse_record_values (ascii ''1,'a','b','O'' @ 39 # 39 # ascii ''Brien','n',NULL,NULL,'f','g','m',NULL,'d','e','x','y','u','v','w','G','c','h','p','q'' @ [39])) columns]"
    by (simp only: parse_sql_text_def obrien_no_match obrien_alternative Let_def) simp
  moreover have "ascii ''O'' @ [39, 39] @ ascii ''Brien'' \<noteq> ascii ''O'Brien''" by (simp add: ascii_def)
  ultimately show ?thesis using obrien_name by simp
qed

lemma obrien_tokens:
  "ascii ''1,'a','b','O'' @ 39 # 39 # ascii ''Brien','n',NULL,NULL,'f','g','m',NULL,'d','e','x','y','u','v','w','G','c','h','p','q'' @ [39]
     = join [44]
     [ascii ''1'',
      [39] @ ascii ''a'' @ [39],
      [39] @ ascii ''b'' @ [39],
      [39] @ ascii ''O'' @ [39, 39] @ ascii ''Brien'' @ [39],
      [39] @ ascii ''n'' @ [39],
      ascii ''NULL'',
      ascii ''NULL'',
      [39] @ ascii ''f'' @ [39],
      [39] @ ascii ''g'' @ [39],
      [39] @ ascii ''m'' @ [39],
      ascii ''NULL'',
      [39] @ ascii ''d'' @ [39],
      [39] @ ascii ''e'' @ [39],
      [39] @ ascii ''x'' @ [39],
      [39] @ ascii ''y'' @ [39],
      [39] @ ascii ''u'' @ [39],
      [39] @ ascii ''v'' @ [39],
      [39] @ ascii ''w'' @ [39],
      [39] @ ascii ''G'' @ [39],
      [39] @ ascii ''c'' @ [39],
      [39] @ ascii ''h'' @ [39],
      [39] @ ascii ''p'' @ [39],
      [39] @ ascii ''q'' @ [39]]"
  by (simp add: ascii_def)

theorem doubled_quote_kept_witness:
  "findall (ascii ''INSERT INTO voters VALUES'' @ 10 # ascii ''(1,'a','b','O'' @ 39 # 39 # ascii ''Brien','n',NULL,NULL,'f','g','m',NULL,'d','e','x','y','u','v','w','G','c','h','p','q');'') = []
   \<and> ascii ''(1,'a','b','O'' @ 39 # 39 # ascii ''Brien','n',NULL,NULL,'f','g','m',NULL,'d','e','x','y','u','v','w','G','c','h','p','q');''
       \<in> set (records (ascii ''INSERT INTO voters VALUES'' @ 10 # ascii ''(1,'a','b','O'' @ 39 # 39 # ascii ''Brien','n',NULL,NULL,'f','g','m',NULL,'d','e','x','y','u','v','w','G','c','h','p','q');''))
   \<and> trim_record (ascii ''(1,'a','b','O'' @ 39 # 39 # ascii ''Brien','n',NULL,NULL,'f','g','m',NULL,'d','e','x','y','u','v','w','G','c','h','p','q');'')
     = join [44]
     [ascii ''1'',
      [39] @ ascii ''a'' @ [39],
      [39] @ ascii ''b'' @ [39],
      [39] @ ascii ''O'' @ [39, 39] @ ascii ''Brien'' @ [39],
      [39] @ ascii ''n'' @ [39],
      ascii ''NULL'',
      ascii ''NULL'',
      [39] @ ascii ''f'' @ [39],
      [39] @ ascii ''g'' @ [39],
      [39] @ ascii ''m'' @ [39],
      ascii ''NULL'',
      [39] @ ascii ''d'' @ [39],
      [39] @ ascii ''e'' @ [39],
      [39] @ ascii ''x'' @ [39],
      [39] @ ascii ''y'' @ [39],
      [39] @ ascii ''u'' @ [39],
      [39] @ ascii ''v'' @ [39],
      [39] @ ascii ''w'' @ [39],
      [39] @ ascii ''G'' @ [39],
      [39] @ ascii ''c'' @ [39],
      [39] @ ascii ''h'' @ [39],
      [39] @ ascii ''p'' @ [39],
      [39] @ ascii ''q'' @ [39]]
   \<and> (\<exists>voter. voter \<in> set (parse_sql_text (ascii ''INSERT INTO voters VALUES'' @ 10 # ascii ''(1,'a','b','O'' @ 39 # 39 # ascii ''Brien','n',NULL,NULL,'f','g','m',NULL,'d','e','x','y','u','v','w','G','c','h','p','q');''))
          \<and> parse_chunk (ascii ''(1,'a','b','O'' @ 39 # 39 # ascii ''Brien','n',NULL,NULL,'f','g','m',NULL,'d','e','x','y','u','v','w','G','c','h','p','q');'') columns = Some voter
          \<and> voter (columns ! 3) = Some (Some (ascii ''O'' @ [39, 39] @ ascii ''Brien'')))"
proof -
  define dump where "dump = ascii ''INSERT INTO voters VALUES'' @ 10 # ascii ''(1,'a','b','O'' @ 39 # 39 # ascii ''Brien','n',NULL,NULL,'f','g','m',NULL,'d','e','x','y','u','v','w','G','c','h','p','q');''"
  define row where "row = ascii ''(1,'a','b','O'' @ 39 # 39 # ascii ''Brien','n',NULL,NULL,'f','g','m',NULL,'d','e','x','y','u','v','w','G','c','h','p','q');''"
  define toks where "toks =
     [ascii ''1'',
      [39] @ ascii ''a'' @ [39],
      [39] @ ascii ''b'' @ [39],
      [39] @ ascii ''O'' @ [39, 39] @ ascii ''Brien'' @ [39],
      [39] @ ascii ''n'' @ [39],
      ascii ''NULL'',
      ascii ''NULL'',
      [39] @ ascii ''f'' @ [39],
      [39] @ ascii ''g'' @ [39],
      [39] @ ascii ''m'' @ [39],
      ascii ''NULL'',
      [39] @ ascii ''d'' @ [39],
      [39] @ ascii ''e'' @ [39],
      [39] @ ascii ''x'' @ [39],
      [39] @ ascii ''y'' @ [39],
      [39] @ ascii ''u'' @ [39],
      [39] @ ascii ''v'' @ [39],
      [39] @ ascii ''w'' @ [39],
      [39] @ ascii ''G'' @ [39],
      [39] @ ascii ''c'' @ [39],
      [39] @ ascii ''h'' @ [39],
      [39] @ ascii ''p'' @ [39],
      [39] @ ascii ''q'' @ [39]]"
  have f: "findall dump = []" unfolding dump_def by (rule obrien_no_match)
  have "records dump = [row]" unfolding dump_def row_def by (rule obrien_records)
  then have m: "row \<in> set (records dump)" by simp
  have t: "trim_record row = join [44] toks"
    unfolding row_def toks_def by (simp only: obrien_trim obrien_tokens)
  have v: "\<forall>t \<in> set toks. value_token t"
    unfolding toks_def by (simp add: value_token_def ascii_def)
  have l: "23 \<le> length toks" unfolding toks_def by simp
  have e: "last toks \<noteq> []" unfolding toks_def by simp
  have s: "strip (toks ! 3) = [39] @ ascii ''O'' @ [39, 39] @ ascii ''Brien'' @ [39]"
    unfolding toks_def by (simp add: strip_def isspace_def ascii_def)
  have i: "(3 :: nat) < 23" by simp
  have n: "ascii ''O'' \<noteq> []" "ascii ''Brien'' \<noteq> []" "39 \<notin> set (ascii ''O'')"
    "39 \<notin> set (ascii ''Brien'')" by (simp_all add: ascii_def)
  have x: "\<exists>voter. voter \<in> set (parse_sql_text dump)
          \<and> parse_chunk row columns = Some voter
          \<and> voter (columns ! 3) = Some (Some (ascii ''O'' @ [39, 39] @ ascii ''Brien''))"
    using f m t v l e i s n by (rule doubled_quote_kept)
  have "findall dump = []
     \<and> row \<in> set (records dump)
     \<and> trim_record row = join [44] toks
     \<and> (\<exists>voter. voter \<in> set (parse_sql_text dump)
          \<and> parse_chunk row columns = Some voter
          \<and> voter (columns ! 3) = Some (Some (ascii ''O'' @ [39, 39] @ ascii ''Brien'')))"
    by (intro conjI f m t x)
  then show ?thesis unfolding dump_def row_def toks_def .
qed

lemma parse_sql_text_render:
  assumes "well_formed_row digits flds"
  shows "parse_sql_text (render_row digits flds)
           = [voter_of_match (digits # map2 group_of insert_pattern (map snd flds))]"
  using findall_render [OF assms] by (simp add: parse_sql_text_def)

lemma render_row_column:
  assumes "well_formed_row digits flds" and "i < 22"
  shows "voter_of_match (digits # map2 group_of insert_pattern (map snd flds)) (columns ! Suc i)
           = Some (stored_field (insert_pattern ! i) (snd (flds ! i)))"
proof -
  from assms(1) have fs: "list_all2 field_ok insert_pattern flds"
    by (simp add: well_formed_row_def)
  then have len: "length flds = 22"
    by (simp add: list_all2_lengthD [symmetric] insert_pattern_length)
  from fs assms(2) have "field_ok (insert_pattern ! i) (flds ! i)"
    by (simp add: list_all2_nthD insert_pattern_length)
  then have ok: "field_ok (insert_pattern ! i) (fst (flds ! i), snd (flds ! i))" by simp
  let ?groups = "digits # map2 group_of insert_pattern (map snd flds)"
  have "?groups ! Suc i = group_of (insert_pattern ! i) (snd (flds ! i))"
    using assms(2) len by (simp add: insert_pattern_length)
  moreover have "Suc i < length ?groups" using assms(2) len by (simp add: insert_pattern_length)
  ultimately have "stored_match ?groups (Suc i) = stored_field (insert_pattern ! i) (snd (flds ! i))"
    using clean_match_value_group [OF ok] by (simp add: stored_match_def)
  moreover from assms(2) have "Suc i < 23" by simp
  ultimately show ?thesis using voter_of_match_nth [of "Suc i" ?groups] by simp
qed


text \<open>
  Claim C7, as amended. Every voter that the primary strategy, the fallback strategy or
  \<open>parse_sql_dump\<close> as a whole emits has exactly the 23 columns as its keys, each
  holding a text or \<open>None\<close>. The text of one row that the row pattern accepts (the
  digits of the id, then 22 values, each a quoted string free of apostrophes, or
  \<open>NULL\<close> in the columns \<open>voter_id_bn\<close>, \<open>voter_id\<close> and \<open>occupation\<close> only),
  parsed alone, gives exactly one voter, with all the keys.
\<close>

theorem emitted_records_have_all_columns:
  "(\<forall>voter \<in> set (map voter_of_match (findall dump)). dom voter = set columns)
   \<and> (\<forall>voter \<in> set (parse_sql_alternative dump' columns). dom voter = set columns)
   \<and> (\<forall>voter \<in> set (parse_sql_text dump). dom voter = set columns)
   \<and> length columns = 23 \<and> distinct columns
   \<and> (well_formed_row digits flds \<longrightarrow>
        (\<exists>voter. parse_sql_text (render_row digits flds) = [voter] \<and> dom voter = set columns))"
proof (intro conjI)
  show m: "\<forall>voter \<in> set (map voter_of_match (findall dump)). dom voter = set columns"
    by (simp add: voter_of_match_dom)
  have a: "\<forall>voter \<in> set (parse_sql_alternative d columns). dom voter = set columns" for d
    by (simp add: parse_sql_alternative_dom)
  from a show "\<forall>voter \<in> set (parse_sql_alternative dump' columns). dom voter = set columns" .
  from m a [of dump] show "\<forall>voter \<in> set (parse_sql_text dump). dom voter = set columns"
    by (simp add: parse_sql_text_def Let_def)
  show "length columns = 23" by (rule columns_length)
  show "distinct columns" by (rule columns_distinct)
  show "well_formed_row digits flds \<longrightarrow>
        (\<exists>voter. parse_sql_text (render_row digits flds) = [voter] \<and> dom voter = set columns)"
    by (simp add: parse_sql_text_render voter_of_match_dom)
qed


text \<open>A well-formed row whose occupation is \<open>NULL\<close> and whose address is empty.\<close>

lemma example_row_render:
  "ascii ''(7, '7', '7', 'Saiful Islam', 'saiful islam', NULL, NULL, 'Abdul Karim', 'abdul karim', 'Amena Begum', NULL, '01/02/1980', '' @ 39 # 39 # ascii '', '0555', '0555', 'Babra', '1', '1', 'male', '2024-01-01', '2024-01-01', 'saiful islam', 'abdul karim')''
     = render_row (ascii ''7'')
     [([32 :: nat], Str (ascii ''7'')),
      ([32], Str (ascii ''7'')),
      ([32], Str (ascii ''Saiful Islam'')),
      ([32], Str (ascii ''saiful islam'')),
      ([32], Null),
      ([32], Null),
      ([32], Str (ascii ''Abdul Karim'')),
      ([32], Str (ascii ''abdul karim'')),
      ([32], Str (ascii ''Amena Begum'')),
      ([32], Null),
      ([32], Str (ascii ''01/02/1980'')),
      ([32], Str []),
      ([32], Str (ascii ''0555'')),
      ([32], Str (ascii ''0555'')),
      ([32], Str (ascii ''Babra'')),
      ([32], Str (ascii ''1'')),
      ([32], Str (ascii ''1'')),
      ([32], Str (ascii ''male'')),
      ([32], Str (ascii ''2024-01-01'')),
      ([32], Str (ascii ''2024-01-01'')),
      ([32], Str (ascii ''saiful islam'')),
      ([32], Str (ascii ''abdul karim''))]"
  by (simp add: render_row_def ascii_def)

lemma example_row_well_formed:
  "well_formed_row (ascii ''7'')
     [([32 :: nat], Str (ascii ''7'')),
      ([32], Str (ascii ''7'')),
      ([32], Str (ascii ''Saiful Islam'')),
      ([32], Str (ascii ''saiful islam'')),
      ([32], Null),
      ([32], Null),
      ([32], Str (ascii ''Abdul Karim'')),
      ([32], Str (ascii ''abdul karim'')),
      ([32], Str (ascii ''Amena Begum'')),
      ([32], Null),
      ([32], Str (ascii ''01/02/1980'')),
      ([32], Str []),
      ([32], Str (ascii ''0555'')),
      ([32], Str (ascii ''0555'')),
      ([32], Str (ascii ''Babra'')),
      ([32], Str (ascii ''1'')),
      ([32], Str (ascii ''1'')),
      ([32], Str (ascii ''male'')),
      ([32], Str (ascii ''2024-01-01'')),
      ([32], Str (ascii ''2024-01-01'')),
      ([32], Str (ascii ''saiful islam'')),
      ([32], Str (ascii ''abdul karim''))]"
  by (simp add: well_formed_row_def insert_pattern_def isdecimal_def digit_zeros_def isspace_def
      ascii_def)


text \<open>A row of 23 values whose \<open>mother_name\<close> is \<open>NULL\<close>: the row pattern has no
  \<open>NULL\<close> in that column, and the text holds no \<open>INSERT INTO\<close> line for the fallback
  strategy.\<close>

lemma null_mother_no_match:
  "findall (ascii ''(7, '7', '7', 'Rahim', 'rahim', NULL, NULL, 'Karim', 'karim', NULL, 'farmer', '1980', 'Babra', '5', '5', 'Babra', '1', '1', 'male', 'c', 'u', 'rahim', 'karim')'') = []"
proof -
  have "match_row (40 # ascii ''7, '7', '7', 'Rahim', 'rahim', NULL, NULL, 'Karim', 'karim', NULL, 'farmer', '1980', 'Babra', '5', '5', 'Babra', '1', '1', 'male', 'c', 'u', 'rahim', 'karim')'') = None"
    by (simp add: ascii_def match_row_def match_quoted_def insert_pattern_def isdecimal_def
        digit_zeros_def isspace_def startswith_def)
  moreover have "40 \<notin> set (ascii ''7, '7', '7', 'Rahim', 'rahim', NULL, NULL, 'Karim', 'karim', NULL, 'farmer', '1980', 'Babra', '5', '5', 'Babra', '1', '1', 'male', 'c', 'u', 'rahim', 'karim')'')"
    by (simp add: ascii_def)
  ultimately have "findall (40 # ascii ''7, '7', '7', 'Rahim', 'rahim', NULL, NULL, 'Karim', 'karim', NULL, 'farmer', '1980', 'Babra', '5', '5', 'Babra', '1', '1', 'male', 'c', 'u', 'rahim', 'karim')'') = []"
    by (rule findall_failed_open)
  moreover have "40 # ascii ''7, '7', '7', 'Rahim', 'rahim', NULL, NULL, 'Karim', 'karim', NULL, 'farmer', '1980', 'Babra', '5', '5', 'Babra', '1', '1', 'male', 'c', 'u', 'rahim', 'karim')''
      = ascii ''(7, '7', '7', 'Rahim', 'rahim', NULL, NULL, 'Karim', 'karim', NULL, 'farmer', '1980', 'Babra', '5', '5', 'Babra', '1', '1', 'male', 'c', 'u', 'rahim', 'karim')''"
    by (simp add: ascii_def)
  ultimately show ?thesis by (simp only:)
qed

lemma null_mother_records:
  "records (ascii ''(7, '7', '7', 'Rahim', 'rahim', NULL, NULL, 'Karim', 'karim', NULL, 'farmer', '1980', 'Babra', '5', '5', 'Babra', '1', '1', 'male', 'c', 'u', 'rahim', 'karim')'') = [[]]"
proof -
  have "split_on 10 [] (ascii ''(7, '7', '7', 'Rahim', 'rahim', NULL, NULL, 'Karim', 'karim', NULL, 'farmer', '1980', 'Babra', '5', '5', 'Babra', '1', '1', 'male', 'c', 'u', 'rahim', 'karim')'')
      = [ascii ''(7, '7', '7', 'Rahim', 'rahim', NULL, NULL, 'Karim', 'karim', NULL, 'farmer', '1980', 'Babra', '5', '5', 'Babra', '1', '1', 'male', 'c', 'u', 'rahim', 'karim')'']"
    by (simp add: ascii_def)
  moreover have "collect_values [ascii ''(7, '7', '7', 'Rahim', 'rahim', NULL, NULL, 'Karim', 'karim', NULL, 'farmer', '1980', 'Babra', '5', '5', 'Babra', '1', '1', 'male', 'c', 'u', 'rahim', 'karim')''] (False, [])
      = (False, [])"
    by (simp add: ascii_def startswith_def)
  ultimately show ?thesis by (simp only: records_def prod.case re_split.simps)
qed

lemma null_mother_values:
  "length (parse_record_values (trim_record (ascii ''(7, '7', '7', 'Rahim', 'rahim', NULL, NULL, 'Karim', 'karim', NULL, 'farmer', '1980', 'Babra', '5', '5', 'Babra', '1', '1', 'male', 'c', 'u', 'rahim', 'karim')''))) = 23"
proof -
  have "trim_record (ascii ''(7, '7', '7', 'Rahim', 'rahim', NULL, NULL, 'Karim', 'karim', NULL, 'farmer', '1980', 'Babra', '5', '5', 'Babra', '1', '1', 'male', 'c', 'u', 'rahim', 'karim')'')
      = ascii ''7, '7', '7', 'Rahim', 'rahim', NULL, NULL, 'Karim', 'karim', NULL, 'farmer', '1980', 'Babra', '5', '5', 'Babra', '1', '1', 'male', 'c', 'u', 'rahim', 'karim'' @ [39]"
    by (simp add: ascii_def trim_record_def strip_def isspace_def startswith_def endswith_def)
  moreover have "length (parse_record_values (ascii ''7, '7', '7', 'Rahim', 'rahim', NULL, NULL, 'Karim', 'karim', NULL, 'farmer', '1980', 'Babra', '5', '5', 'Babra', '1', '1', 'male', 'c', 'u', 'rahim', 'karim'' @ [39])) = 23"
    by (simp add: ascii_def parse_record_values_def clean_value_def strip_def isspace_def
        startswith_def endswith_def)
  ultimately show ?thesis by (simp only:)
qed

theorem emitted_records_have_all_columns_counterexample:
  "length (parse_record_values (trim_record (ascii ''(7, '7', '7', 'Rahim', 'rahim', NULL, NULL, 'Karim', 'karim', NULL, 'farmer', '1980', 'Babra', '5', '5', 'Babra', '1', '1', 'male', 'c', 'u', 'rahim', 'karim')''))) = 23
   \<and> findall (ascii ''(7, '7', '7', 'Rahim', 'rahim', NULL, NULL, 'Karim', 'karim', NULL, 'farmer', '1980', 'Babra', '5', '5', 'Babra', '1', '1', 'male', 'c', 'u', 'rahim', 'karim')'') = []
   \<and> parse_sql_text (ascii ''(7, '7', '7', 'Rahim', 'rahim', NULL, NULL, 'Karim', 'karim', NULL, 'farmer', '1980', 'Babra', '5', '5', 'Babra', '1', '1', 'male', 'c', 'u', 'rahim', 'karim')'') = []"
proof -
  have "parse_chunk [] columns = None"
    by (simp add: parse_chunk_def trim_record_def strip_def startswith_def endswith_def)
  then have "parse_sql_alternative (ascii ''(7, '7', '7', 'Rahim', 'rahim', NULL, NULL, 'Karim', 'karim', NULL, 'farmer', '1980', 'Babra', '5', '5', 'Babra', '1', '1', 'male', 'c', 'u', 'rahim', 'karim')'') columns = []"
    by (simp add: parse_sql_alternative_def null_mother_records List.map_filter_def)
  then have "parse_sql_text (ascii ''(7, '7', '7', 'Rahim', 'rahim', NULL, NULL, 'Karim', 'karim', NULL, 'farmer', '1980', 'Babra', '5', '5', 'Babra', '1', '1', 'male', 'c', 'u', 'rahim', 'karim')'') = []"
    by (simp add: parse_sql_text_def null_mother_no_match)
  with null_mother_values null_mother_no_match show ?thesis by (intro conjI)
qed

theorem emitted_records_have_all_columns_witness:
  "well_formed_row (ascii ''7'')
     [([32 :: nat], Str (ascii ''7'')),
      ([32], Str (ascii ''7'')),
      ([32], Str (ascii ''Saiful Islam'')),
      ([32], Str (ascii ''saiful islam'')),
      ([32], Null),
      ([32], Null),
      ([32], Str (ascii ''Abdul Karim'')),
      ([32], Str (ascii ''abdul karim'')),
      ([32], Str (ascii ''Amena Begum'')),
      ([32], Null),
      ([32], Str (ascii ''01/02/1980'')),
      ([32], Str []),
      ([32], Str (ascii ''0555'')),
      ([32], Str (ascii ''0555'')),
      ([32], Str (ascii ''Babra'')),
      ([32], Str (ascii ''1'')),
      ([32], Str (ascii ''1'')),
      ([32], Str (ascii ''male'')),
      ([32], Str (ascii ''2024-01-01'')),
      ([32], Str (ascii ''2024-01-01'')),
      ([32], Str (ascii ''saiful islam'')),
      ([32], Str (ascii ''abdul karim''))]
   \<and> length (map voter_of_match (findall (ascii ''(7, '7', '7', 'Saiful Islam', 'saiful islam', NULL, NULL, 'Abdul Karim', 'abdul karim', 'Amena Begum', NULL, '01/02/1980', '' @ 39 # 39 # ascii '', '0555', '0555', 'Babra', '1', '1', 'male', '2024-01-01', '2024-01-01', 'saiful islam', 'abdul karim')''))) = 1
   \<and> length (parse_sql_alternative (ascii ''INSERT INTO voters VALUES'' @ 10 # ascii ''(1,'a','b','O'' @ 39 # 39 # ascii ''Brien','n',NULL,NULL,'f','g','m',NULL,'d','e','x','y','u','v','w','G','c','h','p','q');'') columns) = 1
   \<and> dom (parse_sql_text (ascii ''(7, '7', '7', 'Saiful Islam', 'saiful islam', NULL, NULL, 'Abdul Karim', 'abdul karim', 'Amena Begum', NULL, '01/02/1980', '' @ 39 # 39 # ascii '', '0555', '0555', 'Babra', '1', '1', 'male', '2024-01-01', '2024-01-01', 'saiful islam', 'abdul karim')'') ! 0) = set columns
   \<and> dom (parse_sql_alternative (ascii ''INSERT INTO voters VALUES'' @ 10 # ascii ''(1,'a','b','O'' @ 39 # 39 # ascii ''Brien','n',NULL,NULL,'f','g','m',NULL,'d','e','x','y','u','v','w','G','c','h','p','q');'') columns ! 0) = set columns
   \<and> (\<exists>voter. parse_sql_text (ascii ''(7, '7', '7', 'Saiful Islam', 'saiful islam', NULL, NULL, 'Abdul Karim', 'abdul karim', 'Amena Begum', NULL, '01/02/1980', '' @ 39 # 39 # ascii '', '0555', '0555', 'Babra', '1', '1', 'male', '2024-01-01', '2024-01-01', 'saiful islam', 'abdul karim')'') = [voter] \<and> dom voter = set columns)"
proof -
  define F :: "(ustr \<times> sql_value) list" where "F =
     [([32 :: nat], Str (ascii ''7'')),
      ([32], Str (ascii ''7'')),
      ([32], Str (ascii ''Saiful Islam'')),
      ([32], Str (ascii ''saiful islam'')),
      ([32], Null),
      ([32], Null),
      ([32], Str (ascii ''Abdul Karim'')),
      ([32], Str (ascii ''abdul karim'')),
      ([32], Str (ascii ''Amena Begum'')),
      ([32], Null),
      ([32], Str (ascii ''01/02/1980'')),
      ([32], Str []),
      ([32], Str (ascii ''0555'')),
      ([32], Str (ascii ''0555'')),
      ([32], Str (ascii ''Babra'')),
      ([32], Str (ascii ''1'')),
      ([32], Str (ascii ''1'')),
      ([32], Str (ascii ''male'')),
      ([32], Str (ascii ''2024-01-01'')),
      ([32], Str (ascii ''2024-01-01'')),
      ([32], Str (ascii ''saiful islam'')),
      ([32], Str (ascii ''abdul karim''))]"
  define row where "row = ascii ''(7, '7', '7', 'Saiful Islam', 'saiful islam', NULL, NULL, 'Abdul Karim', 'abdul karim', 'Amena Begum', NULL, '01/02/1980', '' @ 39 # 39 # ascii '', '0555', '0555', 'Babra', '1', '1', 'male', '2024-01-01', '2024-01-01', 'saiful islam', 'abdul karim')''"
  define dump where "dump = ascii ''INSERT INTO voters VALUES'' @ 10 # ascii ''(1,'a','b','O'' @ 39 # 39 # ascii ''Brien','n',NULL,NULL,'f','g','m',NULL,'d','e','x','y','u','v','w','G','c','h','p','q');''"
  have w: "well_formed_row (ascii ''7'') F"
    unfolding F_def by (rule example_row_well_formed)
  have r: "row = render_row (ascii ''7'') F"
    unfolding F_def row_def by (rule example_row_render)
  have "findall row = [(ascii ''7'') # map2 group_of insert_pattern (map snd F)]"
    unfolding r using w by (rule findall_render)
  then have f: "length (map voter_of_match (findall row)) = 1" by simp
  have "parse_sql_alternative dump columns
      = [voter_of_values (parse_record_values (ascii ''1,'a','b','O'' @ 39 # 39 # ascii ''Brien','n',NULL,NULL,'f','g','m',NULL,'d','e','x','y','u','v','w','G','c','h','p','q'' @ [39])) columns]"
    unfolding dump_def by (rule obrien_alternative)
  then have a: "length (parse_sql_alternative dump columns) = 1" by simp
  note all = emitted_records_have_all_columns [of row dump "ascii ''7''" F]
  from all have alt: "\<forall>voter \<in> set (parse_sql_alternative dump columns). dom voter = set columns"
    by (rule conjunct1 [OF conjunct2])
  from all have "well_formed_row (ascii ''7'') F \<longrightarrow>
      (\<exists>voter. parse_sql_text (render_row (ascii ''7'') F) = [voter] \<and> dom voter = set columns)"
    by (rule conjunct2 [OF conjunct2 [OF conjunct2 [OF conjunct2 [OF conjunct2]]]])
  then have "\<exists>voter. parse_sql_text (render_row (ascii ''7'') F) = [voter] \<and> dom voter = set columns"
    using w by (rule mp)
  then obtain voter where v: "parse_sql_text row = [voter]" and dv: "dom voter = set columns"
    unfolding r by (elim exE conjE)
  from a have "parse_sql_alternative dump columns ! 0 \<in> set (parse_sql_alternative dump columns)"
    by (intro nth_mem) simp
  with alt have d: "dom (parse_sql_alternative dump columns ! 0) = set columns" by (rule bspec)
  from v dv have p: "dom (parse_sql_text row ! 0) = set columns" by simp
  from v dv have one: "\<exists>voter. parse_sql_text row = [voter] \<and> dom voter = set columns"
    by (intro exI conjI)
  have
    "well_formed_row (ascii ''7'') F
     \<and> length (map voter_of_match (findall row)) = 1
     \<and> length (parse_sql_alternative dump columns) = 1
     \<and> dom (parse_sql_text row ! 0) = set columns
     \<and> dom (parse_sql_alternative dump columns ! 0) = set columns
     \<and> (\<exists>voter. parse_sql_text row = [voter] \<and> dom voter = set columns)"
    by (intro conjI w f a p d one)
  then show ?thesis unfolding F_def row_def dump_def .
qed


text \<open>
  Claim C4. The voter of this row has the key \<open>occupation\<close> holding \<open>None\<close>. Its
  document has no occupation line, but the \<open>occupation\<close> entry of its metadata is
  \<open>None\<close>, where the claim has the empty string: \<open>voter.get('occupation', '')\<close>
  falls back to the empty string for a missing key only.
\<close>

theorem null_occupation_metadata_is_None:
  "(parse_sql_text (ascii ''(7, '7', '7', 'Saiful Islam', 'saiful islam', NULL, NULL, 'Abdul Karim', 'abdul karim', 'Amena Begum', NULL, '01/02/1980', '' @ 39 # 39 # ascii '', '0555', '0555', 'Babra', '1', '1', 'male', '2024-01-01', '2024-01-01', 'saiful islam', 'abdul karim')'') ! 0) ''occupation'' = Some None
   \<and> field_line (parse_sql_text (ascii ''(7, '7', '7', 'Saiful Islam', 'saiful islam', NULL, NULL, 'Abdul Karim', 'abdul karim', 'Amena Begum', NULL, '01/02/1980', '' @ 39 # 39 # ascii '', '0555', '0555', 'Babra', '1', '1', 'male', '2024-01-01', '2024-01-01', 'saiful islam', 'abdul karim')'') ! 0) occupation_label ''occupation'' = []
   \<and> metadata (create_voter_documents (parse_sql_text (ascii ''(7, '7', '7', 'Saiful Islam', 'saiful islam', NULL, NULL, 'Abdul Karim', 'abdul karim', 'Amena Begum', NULL, '01/02/1980', '' @ 39 # 39 # ascii '', '0555', '0555', 'Babra', '1', '1', 'male', '2024-01-01', '2024-01-01', 'saiful islam', 'abdul karim')'')) ! 0) ''occupation'' = Some None
   \<and> metadata (create_voter_documents (parse_sql_text (ascii ''(7, '7', '7', 'Saiful Islam', 'saiful islam', NULL, NULL, 'Abdul Karim', 'abdul karim', 'Amena Begum', NULL, '01/02/1980', '' @ 39 # 39 # ascii '', '0555', '0555', 'Babra', '1', '1', 'male', '2024-01-01', '2024-01-01', 'saiful islam', 'abdul karim')'')) ! 0) ''occupation''
       \<noteq> Some (Some [])"
proof -
  let ?F = "[([32 :: nat], Str (ascii ''7'')),
      ([32], Str (ascii ''7'')),
      ([32], Str (ascii ''Saiful Islam'')),
      ([32], Str (ascii ''saiful islam'')),
      ([32], Null),
      ([32], Null),
      ([32], Str (ascii ''Abdul Karim'')),
      ([32], Str (ascii ''abdul karim'')),
      ([32], Str (ascii ''Amena Begum'')),
      ([32], Null),
      ([32], Str (ascii ''01/02/1980'')),
      ([32], Str []),
      ([32], Str (ascii ''0555'')),
      ([32], Str (ascii ''0555'')),
      ([32], Str (ascii ''Babra'')),
      ([32], Str (ascii ''1'')),
      ([32], Str (ascii ''1'')),
      ([32], Str (ascii ''male'')),
      ([32], Str (ascii ''2024-01-01'')),
      ([32], Str (ascii ''2024-01-01'')),
      ([32], Str (ascii ''saiful islam'')),
      ([32], Str (ascii ''abdul karim''))]"
  let ?row = "ascii ''(7, '7', '7', 'Saiful Islam', 'saiful islam', NULL, NULL, 'Abdul Karim', 'abdul karim', 'Amena Begum', NULL, '01/02/1980', '' @ 39 # 39 # ascii '', '0555', '0555', 'Babra', '1', '1', 'male', '2024-01-01', '2024-01-01', 'saiful islam', 'abdul karim')''"
  let ?v = "voter_of_match ((ascii ''7'') # map2 group_of insert_pattern (map snd ?F))"
  have w: "well_formed_row (ascii ''7'') ?F" by (rule example_row_well_formed)
  have r: "?row = render_row (ascii ''7'') ?F" by (rule example_row_render)
  have p: "parse_sql_text ?row = [?v]"
    using parse_sql_text_render [OF w] by (simp only: r)
  have "columns ! Suc 9 = ''occupation''" by (simp add: columns_def)
  moreover have "stored_field (insert_pattern ! 9) (snd (?F ! 9)) = None" by simp
  ultimately have o: "?v ''occupation'' = Some None"
    using render_row_column [OF w, of 9] by simp
  then have "field_line ?v occupation_label ''occupation'' = []"
    and "metadata (create_voter_document ?v) ''occupation'' = Some None"
    by (simp_all add: field_line_def create_voter_document_def get_or_empty_def)
  with o show ?thesis by (simp only: p create_voter_documents_def) simp
qed

section \<open>Properties of the conversation manager and of the documents\<close>


lemma startswith_append_iff: "startswith p s \<longleftrightarrow> (\<exists>post. s = p @ post)"
  unfolding startswith_def
  by (metis append_eq_conv_conj append_take_drop_id)

lemma contains_iff: "contains sub s \<longleftrightarrow> (\<exists>pre post. s = pre @ sub @ post)"
proof (induction s)
  case Nil
  then show ?case by auto
next
  case (Cons c cs)
  show ?case
  proof
    assume "contains sub (c # cs)"
    then consider "startswith sub (c # cs)" | "contains sub cs" by auto
    then show "\<exists>pre post. c # cs = pre @ sub @ post"
    proof cases
      case 1
      then obtain post where "c # cs = sub @ post" by (auto simp: startswith_append_iff)
      then have "c # cs = [] @ sub @ post" by simp
      then show ?thesis by blast
    next
      case 2
      with Cons.IH obtain pre post where "cs = pre @ sub @ post" by blast
      then have "c # cs = (c # pre) @ sub @ post" by simp
      then show ?thesis by blast
    qed
  next
    assume "\<exists>pre post. c # cs = pre @ sub @ post"
    then obtain pre post where e: "c # cs = pre @ sub @ post" by blast
    show "contains sub (c # cs)"
    proof (cases pre)
      case Nil
      with e have "startswith sub (c # cs)" unfolding startswith_append_iff by auto
      then show ?thesis by simp
    next
      case (Cons a pre')
      with e have "cs = pre' @ sub @ post" by simp
      with Cons.IH have "contains sub cs" by blast
      then show ?thesis by simp
    qed
  qed
qed

text \<open>
  Claim C9. When the call of the chain made by \<open>chat\<close> raises, \<open>chat\<close> hands the
  exception to its caller and the history is the one before the call: no turn is added.
\<close>

theorem chat_failure_keeps_history:
  assumes "invoke (context_enhanced_question lower history q) = Inl e"
  shows "chat lower invoke history q = (Inl e, history)"
  using assms by (simp add: chat_def query_def)

text \<open>
  Claim C10. A voter whose \<open>id\<close> key holds \<open>None\<close> gives a document whose id, and
  whose \<open>id\<close> entry of the metadata, is the four-character text \<open>None\<close>, not the
  empty string.
\<close>

theorem null_id_is_None_text:
  assumes "i < length voters" and "(voters ! i) ''id'' = Some None"
  shows "doc_id (create_voter_documents voters ! i) = ascii ''None''
       \<and> metadata (create_voter_documents voters ! i) ''id'' = Some (Some (ascii ''None''))
       \<and> length (ascii ''None'') = 4 \<and> ascii ''None'' \<noteq> []"
  using assms
  by (simp add: create_voter_documents_def create_voter_document_def get_or_empty_def str_def ascii_def)


lemma frame_differs:
  "ascii ''Previous question: '' @ last_q @ [10] @ ascii ''Current question: '' @ q \<noteq> q"
proof
  assume "ascii ''Previous question: '' @ last_q @ [10] @ ascii ''Current question: '' @ q = q"
  then have "length (ascii ''Previous question: '' @ last_q @ [10] @ ascii ''Current question: '' @ q)
             = length q" by (rule arg_cong)
  then show False by (simp add: ascii_def)
qed

lemma is_follow_up_iff:
  "is_follow_up lower q \<longleftrightarrow>
     length (split q) < 5 \<and>
     (\<exists>indicator \<in> set follow_up_indicators. \<exists>pre post. lower q = pre @ indicator @ post)"
  by (auto simp: is_follow_up_def Let_def list_ex_iff contains_iff)

text \<open>
  Claim C2. \<open>chat\<close> treats a question as a follow-up, that is, sends something else
  than the question itself, exactly when the history is not empty and \<open>_is_follow_up\<close>
  holds; and that is exactly when the history is not empty, the question has fewer than
  five words, and the lowercased question contains one of the indicators. With an empty
  history the question is sent as it is.
\<close>

theorem follow_up_classification:
  "(context_enhanced_question lower history q \<noteq> q \<longleftrightarrow> history \<noteq> [] \<and> is_follow_up lower q)
   \<and> (history \<noteq> [] \<and> is_follow_up lower q \<longleftrightarrow>
        history \<noteq> [] \<and> length (split q) < 5 \<and>
        (\<exists>indicator \<in> set follow_up_indicators. \<exists>pre post. lower q = pre @ indicator @ post))
   \<and> context_enhanced_question lower [] q = q"
proof (intro conjI)
  show "context_enhanced_question lower history q \<noteq> q \<longleftrightarrow> history \<noteq> [] \<and> is_follow_up lower q"
    using frame_differs [of "question (last history)" q]
    by (simp add: context_enhanced_question_def Let_def)
  show "history \<noteq> [] \<and> is_follow_up lower q \<longleftrightarrow>
        history \<noteq> [] \<and> length (split q) < 5 \<and>
        (\<exists>indicator \<in> set follow_up_indicators. \<exists>pre post. lower q = pre @ indicator @ post)"
    by (simp add: is_follow_up_iff)
  show "context_enhanced_question lower [] q = q"
    by (simp add: context_enhanced_question_def)
qed

lemma her_house_split: "split (ascii ''her house'') = [ascii ''her'', ascii ''house'']"
  by (simp add: split_def ascii_def isspace_def)

theorem follow_up_classification_witness:
  "[\<lparr>question = ascii ''Q1'', answer = ascii ''A1''\<rparr>] \<noteq> []
   \<and> length (split (ascii ''her house'')) < 5
   \<and> ascii ''her'' \<in> set follow_up_indicators
   \<and> lower_ascii (ascii ''her house'') = [] @ ascii ''her'' @ ascii '' house''
   \<and> context_enhanced_question lower_ascii [\<lparr>question = ascii ''Q1'', answer = ascii ''A1''\<rparr>]
        (ascii ''her house'') \<noteq> ascii ''her house''"
proof -
  have a: "length (split (ascii ''her house'')) < 5" by (simp add: her_house_split)
  have b: "ascii ''her'' \<in> set follow_up_indicators" by (simp add: follow_up_indicators_def)
  have c: "lower_ascii (ascii ''her house'') = [] @ ascii ''her'' @ ascii '' house''"
    by (simp add: lower_ascii_def ascii_def)
  from b c have d: "\<exists>indicator \<in> set follow_up_indicators.
      \<exists>pre post. lower_ascii (ascii ''her house'') = pre @ indicator @ post" by blast
  show ?thesis
    using a b c d
      follow_up_classification [of lower_ascii "[\<lparr>question = ascii ''Q1'', answer = ascii ''A1''\<rparr>]"
        "ascii ''her house''"]
    by blast
qed

text \<open>
  Claim C3, as amended. After \<open>chat(q1)\<close> and \<open>chat(q2)\<close> have both returned, with \<open>q2\<close>
  a follow-up, the text sent to the chain for \<open>q2\<close> is the line
  \<open>Previous question: q1\<close>, a line feed, and the line \<open>Current question: q2\<close> (the labels
  capitalised), built from the last turn only; the history is the one before the two
  calls followed by two turns that hold \<open>q1\<close> and \<open>q2\<close> themselves with their answers.
\<close>

theorem chat_follow_up_frame:
  assumes first: "chat lower invoke1 history q1 = (Inr r1, h1)"
      and follow: "is_follow_up lower q2"
      and second: "chat lower invoke2 h1 q2 = (Inr r2, h2)"
  shows "context_enhanced_question lower h1 q2 =
           ascii ''Previous question: '' @ q1 @ [10] @ ascii ''Current question: '' @ q2
       \<and> query invoke2 (ascii ''Previous question: '' @ q1 @ [10] @ ascii ''Current question: '' @ q2)
           = Inr r2
       \<and> h2 = history @ [\<lparr>question = q1, answer = res_answer r1\<rparr>,
                          \<lparr>question = q2, answer = res_answer r2\<rparr>]"
proof -
  from first have h1: "h1 = history @ [\<lparr>question = q1, answer = res_answer r1\<rparr>]"
    by (auto simp: chat_def add_to_history_def split: sum.splits)
  with follow have f: "context_enhanced_question lower h1 q2 =
      ascii ''Previous question: '' @ q1 @ [10] @ ascii ''Current question: '' @ q2"
    by (simp add: context_enhanced_question_def)
  from second have "query invoke2 (context_enhanced_question lower h1 q2) = Inr r2"
    and "h2 = h1 @ [\<lparr>question = q2, answer = res_answer r2\<rparr>]"
    by (auto simp: chat_def add_to_history_def split: sum.splits)
  with f h1 show ?thesis by simp
qed


lemma her_house_follow_up: "is_follow_up lower_ascii (ascii ''her house'')"
proof -
  have "length (split (ascii ''her house'')) < 5" by (simp add: her_house_split)
  moreover have "contains (ascii ''her'') (lower_ascii (ascii ''her house''))"
    by (simp add: lower_ascii_def ascii_def startswith_def)
  moreover have "ascii ''her'' \<in> set follow_up_indicators"
    by (simp add: follow_up_indicators_def)
  ultimately show ?thesis
    unfolding is_follow_up_def Let_def list_ex_iff by blast
qed

text \<open>The question \<open>Who is he?\<close> holds none of the indicators: after a first turn it
  is still sent as it is.\<close>

lemma who_is_he_not_follow_up: "\<not> is_follow_up lower_ascii (ascii ''Who is he?'')"
  by (simp add: is_follow_up_def follow_up_indicators_def lower_ascii_def ascii_def
      startswith_def)

theorem chat_follow_up_frame_counterexample:
  "is_follow_up lower_ascii (ascii ''her house'')
   \<and> context_enhanced_question lower_ascii
        [\<lparr>question = ascii ''Where is Ann'', answer = ascii ''A''\<rparr>] (ascii ''her house'')
       \<noteq> ascii ''previous question: Where is Ann'' @ [10] @ ascii ''current question: her house''"
  using her_house_follow_up
  by (simp add: context_enhanced_question_def) (simp add: ascii_def)

theorem chat_follow_up_frame_witness:
  "chat lower_ascii (\<lambda>q. Inr (ascii ''A'', [])) [] (ascii ''Where is Ann'')
     = (Inr \<lparr>res_answer = ascii ''A'', source_documents = []\<rparr> :: unit + nat response,
        [\<lparr>question = ascii ''Where is Ann'', answer = ascii ''A''\<rparr>])
   \<and> is_follow_up lower_ascii (ascii ''her house'')
   \<and> chat lower_ascii (\<lambda>q. Inr (ascii ''B'', []))
        [\<lparr>question = ascii ''Where is Ann'', answer = ascii ''A''\<rparr>] (ascii ''her house'')
     = (Inr \<lparr>res_answer = ascii ''B'', source_documents = []\<rparr> :: unit + nat response,
        [\<lparr>question = ascii ''Where is Ann'', answer = ascii ''A''\<rparr>,
         \<lparr>question = ascii ''her house'', answer = ascii ''B''\<rparr>])
   \<and> context_enhanced_question lower_ascii
        [\<lparr>question = ascii ''Where is Ann'', answer = ascii ''A''\<rparr>] (ascii ''her house'')
     = ascii ''Previous question: Where is Ann'' @ [10] @ ascii ''Current question: her house''"
proof -
  have first: "chat lower_ascii (\<lambda>q. Inr (ascii ''A'', [])) [] (ascii ''Where is Ann'')
     = (Inr \<lparr>res_answer = ascii ''A'', source_documents = []\<rparr> :: unit + nat response,
        [\<lparr>question = ascii ''Where is Ann'', answer = ascii ''A''\<rparr>])"
    by (simp add: chat_def query_def add_to_history_def)
  have second: "chat lower_ascii (\<lambda>q. Inr (ascii ''B'', []))
        [\<lparr>question = ascii ''Where is Ann'', answer = ascii ''A''\<rparr>] (ascii ''her house'')
     = (Inr \<lparr>res_answer = ascii ''B'', source_documents = []\<rparr> :: unit + nat response,
        [\<lparr>question = ascii ''Where is Ann'', answer = ascii ''A''\<rparr>,
         \<lparr>question = ascii ''her house'', answer = ascii ''B''\<rparr>])"
    by (simp add: chat_def query_def add_to_history_def)
  show ?thesis
    using first second her_house_follow_up
      chat_follow_up_frame [OF first her_house_follow_up second]
    by (simp add: ascii_def)
qed

theorem chat_failure_keeps_history_witness:
  "(\<lambda>q. Inl ''service down'' :: string + ustr \<times> nat list)
      (context_enhanced_question lower_ascii
         [\<lparr>question = ascii ''Q1'', answer = ascii ''A1''\<rparr>] (ascii ''Q3''))
     = Inl ''service down''
   \<and> chat lower_ascii (\<lambda>q. Inl ''service down'' :: string + ustr \<times> nat list)
        [\<lparr>question = ascii ''Q1'', answer = ascii ''A1''\<rparr>] (ascii ''Q3'')
     = (Inl ''service down'', [\<lparr>question = ascii ''Q1'', answer = ascii ''A1''\<rparr>])"
  using chat_failure_keeps_history
    [of "\<lambda>q. Inl ''service down'' :: string + ustr \<times> nat list" lower_ascii
        "[\<lparr>question = ascii ''Q1'', answer = ascii ''A1''\<rparr>]" "ascii ''Q3''" "''service down''"]
  by simp

theorem null_id_is_None_text_witness:
  "(0::nat) < length [[''id'' \<mapsto> None :: ustr option]]
   \<and> ([[''id'' \<mapsto> None :: ustr option]] ! 0) ''id'' = Some None
   \<and> doc_id (create_voter_documents [[''id'' \<mapsto> None]] ! 0) = ascii ''None''
   \<and> metadata (create_voter_documents [[''id'' \<mapsto> None]] ! 0) ''id'' = Some (Some (ascii ''None''))"
  using null_id_is_None_text [of 0 "[[''id'' \<mapsto> None]]"]
  by simp

end
